theory Spec2Isabelle
  imports Complex_Main "HOL-Library.Word" "HOL-Library.Sublist"
begin

unbundle bit_operations_syntax

section \<open>Machine types of ffindex\_apply\_mpi.c\<close>

text \<open>
  The program is compiled for an LP64 platform: \<open>int\<close> is 32 bits wide and signed,
  \<open>size_t\<close> is 64 bits wide and unsigned, \<open>ssize_t\<close> is 64 bits wide and signed.
  Words carry the bit pattern; \<open>sint\<close> and \<open>unat\<close> read it the way the C type does.
\<close>

type_synonym c_int = "32 word"
type_synonym size_t = "64 word"

text \<open>
  The ways a process is lost: the trap of an integer division, an access through a
  null pointer, and a store beyond the end of the array \<open>read_buffer\<close> (undefined
  behaviour; nothing is known of the process from there on).
\<close>

datatype fault = SIGFPE | SIGSEGV | BUFFER_OVERRUN

section \<open>Partition planner (main, the "ceil div" lines)\<close>

text \<open>
  \<^verbatim>\<open>int split_size = ((index->n_entries - 1) / ((MPQ_size - 1) * parts)) + 1;\<close>

  \<open>n_entries\<close> is a \<open>size_t\<close>, \<open>MPQ_size\<close> and \<open>parts\<close> are \<open>int\<close>. The product is
  computed in \<open>int\<close>, converted to \<open>size_t\<close> (sign extension) for the unsigned
  division, and the sum is truncated to \<open>int\<close> by the initialisation. A zero divisor
  traps.
\<close>

definition split_size :: "size_t \<Rightarrow> c_int \<Rightarrow> c_int \<Rightarrow> fault + c_int" where
  "split_size n_entries MPQ_size parts =
     (let d = (scast ((MPQ_size - 1) * parts) :: size_t)
      in if d = 0 then Inl SIGFPE
         else Inr (ucast ((n_entries - 1) div d + 1)))"

text \<open>\<^verbatim>\<open>(split_size > 1 ? split_size : 1)\<close>, a signed comparison.\<close>

definition chunk_arg :: "c_int \<Rightarrow> c_int" where
  "chunk_arg s = (if 1 <s s then s else 1)"

text \<open>The second argument of the call \<^verbatim>\<open>MPQ_Main(index->n_entries, ...)\<close>.\<close>

definition planner :: "size_t \<Rightarrow> c_int \<Rightarrow> c_int \<Rightarrow> fault + c_int" where
  "planner n_entries MPQ_size parts =
     (case split_size n_entries MPQ_size parts of
        Inl f \<Rightarrow> Inl f
      | Inr s \<Rightarrow> Inr (chunk_arg s))"

text \<open>
  Modelled from the spec: \<open>MPQ_Main\<close> (mpq/mpq.c is not part of the sources at hand).
  The coordinator hands out chunks of the fixed size, in increasing order, until all
  \<open>n\<close> indices are exhausted; the final chunk may be shorter. A chunk is the half-open
  range \<open>(start, end)\<close>.
\<close>

function MPQ_chunks_from :: "nat \<Rightarrow> nat \<Rightarrow> nat \<Rightarrow> (nat \<times> nat) list" where
  "MPQ_chunks_from s n c =
     (if c = 0 \<or> n \<le> s then []
      else (s, min (s + c) n) # MPQ_chunks_from (s + c) n c)"
  by pat_completeness auto
termination
  by (relation "measure (\<lambda>(s, n, c). n - s)") auto

definition MPQ_chunks :: "nat \<Rightarrow> nat \<Rightarrow> (nat \<times> nat) list" where
  "MPQ_chunks n c = MPQ_chunks_from 0 n c"

definition chunk_indices :: "(nat \<times> nat) \<Rightarrow> nat list" where
  "chunk_indices ch = [fst ch ..< snd ch]"

definition chunk_len :: "(nat \<times> nat) \<Rightarrow> nat" where
  "chunk_len ch = snd ch - fst ch"

text \<open>What the claim asks of a list of chunks over \<open>[0, n)\<close> with chunk size \<open>c\<close>.\<close>

definition plan_ok :: "nat \<Rightarrow> nat \<Rightarrow> (nat \<times> nat) list \<Rightarrow> bool" where
  "plan_ok n c cs \<longleftrightarrow>
     concat (map chunk_indices cs) = [0 ..< n]
     \<and> (\<forall>i<length cs. \<forall>j<length cs. i \<noteq> j \<longrightarrow>
           set (chunk_indices (cs ! i)) \<inter> set (chunk_indices (cs ! j)) = {})
     \<and> sorted_wrt (\<lambda>a b. snd a \<le> fst b) cs
     \<and> (\<forall>ch \<in> set (butlast cs). chunk_len ch = c)
     \<and> cs \<noteq> []
     \<and> 0 < chunk_len (last cs) \<and> chunk_len (last cs) \<le> c"

section \<open>Command-line options (main, the getopt loop)\<close>

text \<open>
  A \<^verbatim>\<open>char *\<close> is either the null pointer or an address together with the
  NUL-terminated text stored there.
\<close>

type_synonym c_str = "(size_t \<times> string) option"

text \<open>
  \<^verbatim>\<open>parts = optarg;\<close> stores a pointer in an \<open>int\<close>: the low 32 bits of the address
  (0 for the null pointer). The text the pointer refers to is not read.
\<close>

definition ptr_to_int :: "c_str \<Rightarrow> c_int" where
  "ptr_to_int p = (case p of None \<Rightarrow> 0 | Some (addr, txt) \<Rightarrow> ucast addr)"

record main_vars =
  parts :: c_int
  data_filename_out :: c_str
  index_filename_out :: c_str

text \<open>\<^verbatim>\<open>int parts = 10; char *data_filename_out = NULL, *index_filename_out = NULL;\<close>\<close>

definition main_init :: main_vars where
  "main_init = \<lparr>parts = 10, data_filename_out = None, index_filename_out = None\<rparr>"

text \<open>
  The body of the \<^verbatim>\<open>switch (opt)\<close>, for one result of \<open>gnu_getopt\<close>: the option
  character and the value of \<open>optarg\<close>.
\<close>

definition main_switch :: "main_vars \<Rightarrow> char \<times> c_str \<Rightarrow> main_vars" where
  "main_switch v oa =
     (let opt = fst oa; optarg = snd oa
      in if opt = CHR ''d'' then v\<lparr>data_filename_out := optarg\<rparr>
         else if opt = CHR ''i'' then v\<lparr>index_filename_out := optarg\<rparr>
         else if opt = CHR ''p'' then v\<lparr>parts := ptr_to_int optarg\<rparr>
         else v)"

text \<open>The \<^verbatim>\<open>while ((opt = gnu_getopt(...)) != -1)\<close> loop over the options found.\<close>

definition main_getopt_loop :: "(char \<times> c_str) list \<Rightarrow> main_vars" where
  "main_getopt_loop found = foldl main_switch main_init found"

text \<open>The chunk size \<open>main\<close> passes on after parsing the options.\<close>

definition main_chunk_size :: "size_t \<Rightarrow> c_int \<Rightarrow> (char \<times> c_str) list \<Rightarrow> fault + c_int" where
  "main_chunk_size n_entries MPQ_size found =
     planner n_entries MPQ_size (parts (main_getopt_loop found))"

section \<open>Data of the entry pipe runner\<close>

type_synonym ssize_t = "64 word"

datatype errno = EPIPE | EAGAIN | EINTR | EMFILE | ENOMEM | EIO

text \<open>\<open>ffindex_entry_t\<close>: \<open>length\<close> counts the payload and one trailing NUL.\<close>

record ffindex_entry =
  e_offset :: size_t
  e_length :: size_t
  e_name :: string

text \<open>
  The value an \<open>int\<close> function returns or stores as a status: \<open>EXIT_SUCCESS\<close> (0),
  \<open>EXIT_FAILURE\<close>, or the value of \<open>errno\<close> after a failed call, which is never 0.
\<close>

datatype status = EXIT_SUCCESS | EXIT_FAILURE | Errno errno

text \<open>
  The answers of the kernel to the parent. \<open>WOk k\<close>: the pipe has room for \<open>k\<close>
  bytes, so \<open>write\<close> returns the smaller of \<open>k\<close> and the requested count;
  \<open>WFail e\<close>: \<open>write\<close> returns -1 with \<open>errno = e\<close>. \<open>RData d\<close>: \<open>read\<close> stores the
  bytes \<open>d\<close> and returns their number; \<open>REof\<close>: it returns 0; \<open>RFail e\<close>: it returns
  -1. \<open>waitpid\<close> reports a normal exit with its code or a death by signal.
\<close>

datatype wres = WOk nat | WFail errno
datatype rres = RData string | REof | RFail errno
datatype wstatus = Exited nat | Signaled nat

text \<open>
  One child, as the parent sees it: the results of the two \<open>pipe\<close> calls and of
  \<open>fork\<close> (\<open>None\<close> is success), the answers to the iterations of the write loop
  (one \<open>write\<close> and, when capturing, one non-blocking \<open>read\<close> each), the answers to
  the blocking reads after it, and the wait status. A list of answers that ends
  means that the next call never returns.
\<close>

record child =
  pipe_stdin :: "errno option"
  pipe_stdout :: "errno option"
  fork :: "errno option"
  io :: "(wres \<times> rres) list"
  drain :: "rres list"
  wait :: wstatus

datatype fd = stdin_r | stdin_w | stdout_r | stdout_w

text \<open>
  The system calls of the parent branch, in order. \<open>SysWrite off count a\<close> is
  \<^verbatim>\<open>write(pipefd_stdin[1], filedata + off, count)\<close> with answer \<open>a\<close>;
  \<open>SysRead nb a\<close> is \<^verbatim>\<open>read(pipefd_stdout[0], b, PIPE_BUF)\<close> with \<open>O_NONBLOCK\<close> set
  (\<open>nb\<close>) or cleared, and answer \<open>a\<close>.
\<close>

datatype syscall =
    SysWrite nat nat wres
  | SysRead bool rres
  | SysClose fd
  | SysNonblock
  | SysBlock
  | SysWaitpid

datatype 'a result = Blocked | Crash fault | Ret 'a

text \<open>\<open>PIPE_BUF\<close> of \<open>limits.h\<close>, on Linux.\<close>

definition PIPE_BUF :: size_t where
  "PIPE_BUF = 4096"

text \<open>
  \<^verbatim>\<open>int batch_size = PIPE_BUF; if (rest < PIPE_BUF) batch_size = rest;\<close>
\<close>

definition batch_size :: "size_t \<Rightarrow> c_int" where
  "batch_size rest = (if rest < PIPE_BUF then ucast rest else ucast PIPE_BUF)"

text \<open>The value \<open>write\<close> returns, and the \<open>errno\<close> it leaves on failure.\<close>

definition write_ret :: "nat \<Rightarrow> wres \<Rightarrow> ssize_t" where
  "write_ret count a = (case a of WOk k \<Rightarrow> of_nat (min k count) | WFail e \<Rightarrow> - 1)"

definition write_errno :: "wres \<Rightarrow> errno option" where
  "write_errno a = (case a of WOk k \<Rightarrow> None | WFail e \<Rightarrow> Some e)"

text \<open>\<^verbatim>\<open>if (r > 0) b += r;\<close>: the bytes a read adds to \<open>read_buffer\<close>.\<close>

definition read_data :: "rres \<Rightarrow> string" where
  "read_data a = (case a of RData d \<Rightarrow> d | REof \<Rightarrow> [] | RFail e \<Rightarrow> [])"

text \<open>
  \<^verbatim>\<open>char read_buffer[400 * 1024 * 1024];\<close> Every \<open>read\<close> stores at \<open>b\<close>, which
  starts at \<open>read_buffer\<close> and moves on by the bytes stored; nothing compares \<open>b\<close>
  with the end of the array. A \<open>read\<close> whose bytes do not fit between \<open>b\<close> and the end
  of the array stores beyond it.
\<close>

definition read_buffer_size :: nat where
  "read_buffer_size = 400 * 1024 * 1024"

text \<open>
  The write loop. \<open>written\<close> is an \<open>ssize_t\<close> and \<open>to_write\<close> a \<open>size_t\<close>; the loop
  test compares them as unsigned numbers. The state is \<open>written\<close>, the bytes stored
  from \<open>read_buffer\<close> up to \<open>b\<close>, and the calls made so far.
\<close>

fun write_loop ::
  "bool \<Rightarrow> size_t \<Rightarrow> (wres \<times> rres) list \<Rightarrow> ssize_t \<Rightarrow> string \<Rightarrow> syscall list
     \<Rightarrow> (ssize_t \<times> string \<times> syscall list) result" where
  "write_loop capture_stdout to_write [] written b tr =
     (if written < to_write then Blocked else Ret (written, b, tr))"
| "write_loop capture_stdout to_write ((wa, ra) # script) written b tr =
     (if written < to_write then
        (let rest = to_write - written;
             count = nat (sint (batch_size rest));
             w = write_ret count wa;
             tr1 = tr @ [SysWrite (unat written) count wa]
         in if w <s 0 \<and> write_errno wa \<noteq> Some EPIPE then Ret (written, b, tr1)
            else if capture_stdout
              then (if read_buffer_size < length (b @ read_data ra) then Crash BUFFER_OVERRUN
                    else write_loop capture_stdout to_write script (written + w)
                           (b @ read_data ra) (tr1 @ [SysRead True ra]))
              else write_loop capture_stdout to_write script (written + w) b tr1)
      else Ret (written, b, tr))"

text \<open>\<^verbatim>\<open>while ((r = read(pipefd_stdout[0], b, PIPE_BUF)) > 0) b += r;\<close>\<close>

fun read_rest :: "rres list \<Rightarrow> string \<Rightarrow> syscall list \<Rightarrow> (string \<times> syscall list) result" where
  "read_rest [] b tr = Blocked"
| "read_rest (a # script) b tr =
     (if read_data a \<noteq> [] then
        (if read_buffer_size < length (b @ read_data a) then Crash BUFFER_OVERRUN
         else read_rest script (b @ read_data a) (tr @ [SysRead False a]))
      else Ret (b, tr @ [SysRead False a]))"

section \<open>Files, shards and the printed numbers\<close>

text \<open>
  A shard is a pair of files: the data file holds bytes, the index file holds lines
  \<open>name, offset, length\<close>. The file system maps a path to the contents of the file.
\<close>

type_synonym index_line = "string \<times> nat \<times> nat"

datatype shard_file = Blob string | Index "index_line list"

type_synonym filesys = "string \<rightharpoonup> shard_file"

definition blob_of :: "filesys \<Rightarrow> string \<Rightarrow> string" where
  "blob_of fs p = (case fs p of Some (Blob b) \<Rightarrow> b | _ \<Rightarrow> [])"

definition lines_of :: "filesys \<Rightarrow> string \<Rightarrow> index_line list" where
  "lines_of fs p = (case fs p of Some (Index ls) \<Rightarrow> ls | _ \<Rightarrow> [])"

text \<open>Decimal output of \<open>printf\<close>: \<open>%zu\<close> prints a natural number, \<open>%d\<close>, \<open>%i\<close> and \<open>%zd\<close> a signed one.\<close>

definition digit :: "nat \<Rightarrow> char" where
  "digit d = ''0123456789'' ! d"

function show_nat :: "nat \<Rightarrow> string" where
  "show_nat n = (if n < 10 then [digit n] else show_nat (n div 10) @ [digit (n mod 10)])"
  by pat_completeness auto
termination
  by (relation "measure id") auto

definition show_int :: "int \<Rightarrow> string" where
  "show_int i = (if i < 0 then CHR ''-'' # show_nat (nat (- i)) else show_nat (nat i))"

text \<open>
  \<open>FILENAME_MAX\<close> of \<open>stdio.h\<close>, on Linux. \<^verbatim>\<open>snprintf(buf, n, format, ...)\<close> leaves in
  \<open>buf\<close> the first \<open>n - 1\<close> characters of the formatted text.
\<close>

definition FILENAME_MAX :: nat where
  "FILENAME_MAX = 4096"

definition snprintf :: "nat \<Rightarrow> string \<Rightarrow> string" where
  "snprintf n formatted = take (n - 1) formatted"

text \<open>
  The texts of the three file-name formats: \<^verbatim>\<open>"%s.%d.%zu.%zu"\<close> (the worker
  payload), \<^verbatim>\<open>"%s.%d.%d.%d"\<close> (the worker's merge) and \<^verbatim>\<open>"%s.%d"\<close> (worker shard).
\<close>

definition chunk_file_zu :: "string \<Rightarrow> c_int \<Rightarrow> size_t \<Rightarrow> size_t \<Rightarrow> string" where
  "chunk_file_zu base rank s e =
     base @ ''.'' @ show_int (sint rank) @ ''.'' @ show_nat (unat s) @ ''.'' @ show_nat (unat e)"

definition chunk_file_d :: "string \<Rightarrow> c_int \<Rightarrow> c_int \<Rightarrow> c_int \<Rightarrow> string" where
  "chunk_file_d base rank s e =
     base @ ''.'' @ show_int (sint rank) @ ''.'' @ show_int (sint s) @ ''.'' @ show_int (sint e)"

definition rank_file :: "string \<Rightarrow> c_int \<Rightarrow> string" where
  "rank_file base rank = base @ ''.'' @ show_int (sint rank)"

section \<open>State of one process\<close>

record worker_splits_s =
  split_start :: c_int
  split_end :: c_int
  split_status :: status

text \<open>
  The file arguments of one run \<^verbatim>\<open>ffindex_build -as -d A -i B C D\<close> of the merge
  tool: the shard \<open>(A, B)\<close> is appended to the shard \<open>(C, D)\<close>.
\<close>

record merge_cmd =
  src_data :: string
  src_index :: string
  dst_data :: string
  dst_index :: string

text \<open>
  What a process has done to the outside: the files, the lines printed to standard
  output, the system calls of the pipe runner, the command lines given to \<open>system\<close>,
  the paths given to \<open>remove\<close>; and its list \<open>worker_splits_head\<close>, head first.
\<close>

record world =
  files :: filesys
  stdout_lines :: "string list"
  calls :: "syscall list"
  commands :: "string list"
  removed :: "string list"
  worker_splits_head :: "worker_splits_s list"

section \<open>Entry pipe runner (ffindex\_apply\_by\_entry)\<close>

text \<open>
  Modelled from the spec: \<open>ffindex_insert_memory\<close> (ffindex.c is not part of the
  sources at hand), the Shard Writer of section 4.3. It appends the bytes and the
  sentinel to the data file at the running offset, writes the index line
  \<open>name, offset, len(bytes) + 1\<close>, and advances the offset by \<open>len(bytes) + 1\<close>.
  Writing through a null stream is a fault.
\<close>

definition ffindex_insert_memory ::
  "filesys \<Rightarrow> string option \<Rightarrow> string option \<Rightarrow> size_t \<Rightarrow> string \<Rightarrow> string
     \<Rightarrow> fault + (filesys \<times> size_t)" where
  "ffindex_insert_memory fs data_file index_file offset bytes nm =
     (case data_file of
        None \<Rightarrow> Inl SIGSEGV
      | Some d \<Rightarrow>
         (case index_file of
            None \<Rightarrow> Inl SIGSEGV
          | Some i \<Rightarrow>
             (let fs1 = fs(d \<mapsto> Blob (blob_of fs d @ bytes @ [CHR 0x00]));
                  fs2 = fs1(i \<mapsto> Index (lines_of fs1 i @ [(nm, unat offset, length bytes + 1)]))
              in Inr (fs2, offset + of_nat (length bytes + 1)))))"

text \<open>
  \<^verbatim>\<open>"%s\t%zd\t%zd\t%i\n"\<close> with the entry's name, offset, length and \<open>WEXITSTATUS\<close>.
\<close>

definition progress_line :: "ffindex_entry \<Rightarrow> nat \<Rightarrow> string" where
  "progress_line entry code =
     e_name entry @ [CHR 0x09] @ show_int (sint (e_offset entry)) @ [CHR 0x09]
       @ show_int (sint (e_length entry)) @ [CHR 0x09] @ show_nat code @ [CHR 0x0A]"

text \<open>
  \<^verbatim>\<open>waitpid(child_pid, &status, 0); if (WIFEXITED(status)) fprintf(stdout, ...);\<close>
\<close>

definition wait_and_report :: "ffindex_entry \<Rightarrow> wstatus \<Rightarrow> world \<Rightarrow> world" where
  "wait_and_report entry st w =
     (let w1 = w\<lparr>calls := calls w @ [SysWaitpid]\<rparr>
      in case st of
           Exited code \<Rightarrow> w1\<lparr>stdout_lines := stdout_lines w1 @ [progress_line entry code]\<rparr>
         | Signaled sig \<Rightarrow> w1)"

text \<open>
  The parent branch after a successful \<open>fork\<close>, in two parts. First the traffic on
  the pipes (lines 121 to 184): the write loop, the close of the input pipe and, when
  capturing, the reads up to the one that returns no bytes. It yields the bytes
  stored from \<open>read_buffer\<close> up to \<open>b\<close> and the calls made.
\<close>

definition pipe_io ::
  "ffindex_entry \<Rightarrow> bool \<Rightarrow> child \<Rightarrow> syscall list \<Rightarrow> (string \<times> syscall list) result" where
  "pipe_io entry capture_stdout ch tr =
     (let tr0 = tr @ [SysClose stdin_r]
                  @ (if capture_stdout then [SysClose stdout_w, SysNonblock] else []);
          to_write = e_length entry - 1
      in case write_loop capture_stdout to_write (io ch) 0 [] tr0 of
           Blocked \<Rightarrow> Blocked
         | Crash f \<Rightarrow> Crash f
         | Ret (written, b, tr1) \<Rightarrow>
             if capture_stdout then
               (case read_rest (drain ch) b (tr1 @ [SysClose stdin_w, SysBlock]) of
                  Blocked \<Rightarrow> Blocked
                | Crash f \<Rightarrow> Crash f
                | Ret (b', tr2) \<Rightarrow> Ret (b', tr2 @ [SysClose stdout_r]))
             else Ret (b, tr1 @ [SysClose stdin_w]))"

text \<open>
  Then the captured bytes are given to the shard writer, and the child is waited
  for. The open streams \<open>data_file_out\<close> and \<open>index_file_out\<close> are given by the path
  they were opened on, \<open>None\<close> for \<open>NULL\<close>.
\<close>

definition parent_branch ::
  "ffindex_entry \<Rightarrow> string option \<Rightarrow> string option \<Rightarrow> child \<Rightarrow> size_t \<Rightarrow> world
     \<Rightarrow> (status \<times> size_t \<times> world) result" where
  "parent_branch entry data_file_out index_file_out ch offset w =
     (let capture_stdout = (data_file_out \<noteq> None)
      in case pipe_io entry capture_stdout ch (calls w) of
           Blocked \<Rightarrow> Blocked
         | Crash f \<Rightarrow> Crash f
         | Ret (b, tr) \<Rightarrow>
             if capture_stdout then
               (case ffindex_insert_memory (files w) data_file_out index_file_out
                       offset b (e_name entry) of
                  Inl f \<Rightarrow> Crash f
                | Inr (fs', offset') \<Rightarrow>
                    Ret (EXIT_SUCCESS, offset',
                         wait_and_report entry (wait ch) (w\<lparr>files := fs', calls := tr\<rparr>)))
             else Ret (EXIT_SUCCESS, offset,
                       wait_and_report entry (wait ch) (w\<lparr>calls := tr\<rparr>)))"

text \<open>
  The whole function, as the parent process runs it: the two \<open>pipe\<close> calls, \<open>fork\<close>,
  then the parent branch. A failed call returns \<open>errno\<close>. (The child branch
  replaces the child process by the program; the child is the \<open>child\<close> record.)
\<close>

definition ffindex_apply_by_entry ::
  "ffindex_entry \<Rightarrow> string option \<Rightarrow> string option \<Rightarrow> child \<Rightarrow> size_t \<Rightarrow> world
     \<Rightarrow> (status \<times> size_t \<times> world) result" where
  "ffindex_apply_by_entry entry data_file_out index_file_out ch offset w =
     (let capture_stdout = (data_file_out \<noteq> None)
      in case pipe_stdin ch of
           Some e \<Rightarrow> Ret (Errno e, offset, w)
         | None \<Rightarrow>
            (case (if capture_stdout then pipe_stdout ch else None) of
               Some e \<Rightarrow> Ret (Errno e, offset, w)
             | None \<Rightarrow>
                (case fork ch of
                   Some e \<Rightarrow> Ret (Errno e, offset, w)
                 | None \<Rightarrow> parent_branch entry data_file_out index_file_out ch offset w)))"

section \<open>Worker loop (ffindex\_apply\_worker\_payload)\<close>

text \<open>
  \<open>ffindex_apply_mpi_data_t\<close>: the parsed index, the data blob and the two output
  base names (\<open>None\<close> for \<open>NULL\<close>). The program name and its arguments are used by
  the child only.
\<close>

record ffindex_apply_mpi_data =
  a_index :: "ffindex_entry list"
  a_data :: string
  a_data_filename_out :: "string option"
  a_index_filename_out :: "string option"

text \<open>
  Modelled from the spec: \<open>ffindex_get_entry_by_index\<close> (ffindex.c is not part of
  the sources at hand). Entries are addressed by index position \<open>0..n-1\<close>; fetching
  out of range fails and yields no entry.
\<close>

definition ffindex_get_entry_by_index :: "ffindex_entry list \<Rightarrow> nat \<Rightarrow> ffindex_entry option" where
  "ffindex_get_entry_by_index idx i = (if i < length idx then Some (idx ! i) else None)"

text \<open>
  Modelled from the spec: \<open>ffindex_get_data_by_entry\<close> (ffindex.c), the bytes of the
  blob from the entry's offset on.
\<close>

definition ffindex_get_data_by_entry :: "string \<Rightarrow> ffindex_entry \<Rightarrow> string" where
  "ffindex_get_data_by_entry dat entry = drop (unat (e_offset entry)) dat"

text \<open>
  The \<open>for\<close> loop over the entry indices of the chunk. \<open>child_of i\<close> is the child
  that \<open>fork\<close> creates for entry \<open>i\<close>. In the branch \<open>entry == NULL\<close> the first
  statement is \<^verbatim>\<open>perror(entry->name)\<close>, which reads the name through the null
  pointer: the process faults there.
\<close>

fun payload_loop ::
  "ffindex_entry list \<Rightarrow> (nat \<Rightarrow> child) \<Rightarrow> string option \<Rightarrow> string option \<Rightarrow> nat list
     \<Rightarrow> size_t \<Rightarrow> world \<Rightarrow> (status \<times> world) result" where
  "payload_loop idx child_of data_file_out index_file_out [] offset w = Ret (EXIT_SUCCESS, w)"
| "payload_loop idx child_of data_file_out index_file_out (i # rest) offset w =
     (case ffindex_get_entry_by_index idx i of
        None \<Rightarrow> Crash SIGSEGV
      | Some entry \<Rightarrow>
         (case ffindex_apply_by_entry entry data_file_out index_file_out (child_of i) offset w of
            Blocked \<Rightarrow> Blocked
          | Crash f \<Rightarrow> Crash f
          | Ret (error, offset', w') \<Rightarrow>
              if error \<noteq> EXIT_SUCCESS then Ret (error, w')
              else payload_loop idx child_of data_file_out index_file_out rest offset' w'))"

text \<open>\<^verbatim>\<open>fopen(path, "w+")\<close> on a path that can be opened: the file is there and empty.\<close>

definition fopen_w :: "string option \<Rightarrow> shard_file \<Rightarrow> world \<Rightarrow> world" where
  "fopen_w path fresh w =
     (case path of None \<Rightarrow> w | Some p \<Rightarrow> w\<lparr>files := (files w)(p \<mapsto> fresh)\<rparr>)"

definition fopen_fails_on :: "(string \<Rightarrow> bool) \<Rightarrow> string option \<Rightarrow> bool" where
  "fopen_fails_on fopen_fails path = (case path of None \<Rightarrow> False | Some p \<Rightarrow> fopen_fails p)"

text \<open>
  The callback of the work queue for the chunk \<open>[start, end)\<close>, on the process of
  rank \<open>MPQ_rank\<close>. \<open>fopen_fails\<close> tells for which paths \<open>fopen\<close> returns \<open>NULL\<close>. The
  names of the two files are printed with \<^verbatim>\<open>snprintf(..., FILENAME_MAX, "%s.%d.%zu.%zu", ...)\<close>.
\<close>

definition ffindex_apply_worker_payload ::
  "c_int \<Rightarrow> (string \<Rightarrow> bool) \<Rightarrow> (nat \<Rightarrow> child) \<Rightarrow> size_t \<Rightarrow> size_t
     \<Rightarrow> ffindex_apply_mpi_data \<Rightarrow> world \<Rightarrow> (status \<times> world) result" where
  "ffindex_apply_worker_payload MPQ_rank fopen_fails child_of start end apply_data w =
     (let data_file_out =
            map_option (\<lambda>d. snprintf FILENAME_MAX (chunk_file_zu d MPQ_rank start end))
              (a_data_filename_out apply_data)
      in if fopen_fails_on fopen_fails data_file_out then Ret (EXIT_FAILURE, w)
         else
          (let w1 = fopen_w data_file_out (Blob []) w;
               index_file_out =
                 map_option (\<lambda>i. snprintf FILENAME_MAX (chunk_file_zu i MPQ_rank start end))
                   (a_index_filename_out apply_data)
           in if fopen_fails_on fopen_fails index_file_out then Ret (EXIT_FAILURE, w1)
              else
               (let w2 = fopen_w index_file_out (Index []) w1
                in case payload_loop (a_index apply_data) child_of data_file_out index_file_out
                          [unat start ..< unat end] 0 w2 of
                     Blocked \<Rightarrow> Blocked
                   | Crash f \<Rightarrow> Crash f
                   | Ret (exit_status, w3) \<Rightarrow>
                       Ret (exit_status,
                            w3\<lparr>worker_splits_head :=
                                 \<lparr>split_start = ucast start, split_end = ucast end,
                                  split_status = exit_status\<rparr> # worker_splits_head w3\<rparr>))))"

section \<open>Merging (ffindex\_worker\_merge\_splits, ffindex\_merge\_splits)\<close>

text \<open>
  \<open>system\<close> hands a command line to \<^verbatim>\<open>/bin/sh\<close>: the status it returns and its
  effect on the files are whatever the shell and the programs it starts do, a
  parameter of the merge functions.
\<close>

type_synonym system_fn = "string \<Rightarrow> filesys \<Rightarrow> c_int \<times> filesys"

definition remove_file :: "string \<Rightarrow> world \<Rightarrow> world" where
  "remove_file p w = w\<lparr>files := (files w)(p := None), removed := removed w @ [p]\<rparr>"

definition run_system :: "system_fn \<Rightarrow> string \<Rightarrow> world \<Rightarrow> c_int \<times> world" where
  "run_system system merge_command w =
     (let r = system merge_command (files w)
      in (fst r, w\<lparr>files := snd r, commands := commands w @ [merge_command]\<rparr>))"

text \<open>
  The text of the format
  \<^verbatim>\<open>"ffindex_build -as -d %s.%d.%d.%d -i %s.%d.%d.%d %s.%d %s.%d"\<close> of
  \<open>ffindex_worker_merge_splits\<close>, and what
  \<^verbatim>\<open>snprintf(merge_command, FILENAME_MAX, ...)\<close> leaves of it in \<open>merge_command\<close>.
\<close>

definition worker_merge_text ::
  "string \<Rightarrow> string \<Rightarrow> c_int \<Rightarrow> worker_splits_s \<Rightarrow> string" where
  "worker_merge_text data_filename index_filename worker_rank entry =
     ''ffindex_build -as -d ''
       @ chunk_file_d data_filename worker_rank (split_start entry) (split_end entry)
       @ '' -i ''
       @ chunk_file_d index_filename worker_rank (split_start entry) (split_end entry)
       @ '' '' @ rank_file data_filename worker_rank
       @ '' '' @ rank_file index_filename worker_rank"

definition worker_merge_command ::
  "string \<Rightarrow> string \<Rightarrow> c_int \<Rightarrow> worker_splits_s \<Rightarrow> string" where
  "worker_merge_command data_filename index_filename worker_rank entry =
     snprintf FILENAME_MAX (worker_merge_text data_filename index_filename worker_rank entry)"

text \<open>
  The body of \<open>SLIST_FOREACH\<close> in \<open>ffindex_worker_merge_splits\<close>: the command, then
  the two \<open>remove\<close> calls on the names printed into \<open>tmp_filename\<close> with
  \<^verbatim>\<open>snprintf(tmp_filename, FILENAME_MAX, "%s.%d.%d.%d", ...)\<close>.
\<close>

definition worker_merge_step ::
  "system_fn \<Rightarrow> string \<Rightarrow> string \<Rightarrow> c_int \<Rightarrow> bool \<Rightarrow> world \<Rightarrow> worker_splits_s \<Rightarrow> world" where
  "worker_merge_step system data_filename index_filename worker_rank remove_temporary w entry =
     (let r = run_system system
                (worker_merge_command data_filename index_filename worker_rank entry) w;
          exit_status = fst r;
          w1 = snd r
      in if exit_status = 0 \<and> remove_temporary then
           remove_file
             (snprintf FILENAME_MAX
                (chunk_file_d data_filename worker_rank (split_start entry) (split_end entry)))
             (remove_file
                (snprintf FILENAME_MAX
                   (chunk_file_d index_filename worker_rank (split_start entry) (split_end entry)))
                w1)
         else w1)"

definition ffindex_worker_merge_splits ::
  "system_fn \<Rightarrow> string option \<Rightarrow> string option \<Rightarrow> c_int \<Rightarrow> bool \<Rightarrow> world \<Rightarrow> world" where
  "ffindex_worker_merge_splits system data_filename index_filename worker_rank remove_temporary w =
     (case data_filename of
        None \<Rightarrow> w
      | Some d \<Rightarrow>
         (case index_filename of
            None \<Rightarrow> w
          | Some i \<Rightarrow>
              foldl (worker_merge_step system d i worker_rank remove_temporary) w
                (worker_splits_head w)))"

text \<open>
  The text of the format \<^verbatim>\<open>"ffindex_build -as -d %s.%d -i %s.%d %s %s"\<close> of
  \<open>ffindex_merge_splits\<close>, and what \<open>snprintf\<close> leaves of it in \<open>merge_command\<close>.
\<close>

definition merge_text :: "string \<Rightarrow> string \<Rightarrow> c_int \<Rightarrow> string" where
  "merge_text data_filename index_filename i =
     ''ffindex_build -as -d '' @ rank_file data_filename i
       @ '' -i '' @ rank_file index_filename i
       @ '' '' @ data_filename @ '' '' @ index_filename"

definition merge_command :: "string \<Rightarrow> string \<Rightarrow> c_int \<Rightarrow> string" where
  "merge_command data_filename index_filename i =
     snprintf FILENAME_MAX (merge_text data_filename index_filename i)"

text \<open>The body of the \<open>for\<close> loop in \<open>ffindex_merge_splits\<close>.\<close>

definition merge_step ::
  "system_fn \<Rightarrow> string \<Rightarrow> string \<Rightarrow> bool \<Rightarrow> world \<Rightarrow> c_int \<Rightarrow> world" where
  "merge_step system data_filename index_filename remove_temporary w i =
     (let r = run_system system (merge_command data_filename index_filename i) w;
          ret = fst r;
          w1 = snd r
      in if ret = 0 \<and> remove_temporary then
           remove_file (snprintf FILENAME_MAX (rank_file data_filename i))
             (remove_file (snprintf FILENAME_MAX (rank_file index_filename i)) w1)
         else w1)"

text \<open>\<^verbatim>\<open>for (int i = 1; i < splits; i++)\<close>: the values of \<open>i\<close>, in order.\<close>

definition split_ranks :: "c_int \<Rightarrow> c_int list" where
  "split_ranks splits = map of_nat [1 ..< nat (sint splits)]"

definition ffindex_merge_splits ::
  "system_fn \<Rightarrow> string option \<Rightarrow> string option \<Rightarrow> c_int \<Rightarrow> bool \<Rightarrow> world \<Rightarrow> world" where
  "ffindex_merge_splits system data_filename index_filename splits remove_temporary w =
     (case data_filename of
        None \<Rightarrow> w
      | Some d \<Rightarrow>
         (case index_filename of
            None \<Rightarrow> w
          | Some i \<Rightarrow> foldl (merge_step system d i remove_temporary) w (split_ranks splits)))"

text \<open>
  Modelled from the spec: the external merge \<open>ffindex_build -as\<close> (ffindex_build.c
  is not part of the sources at hand), section 4.5: append the other shard's blob
  bytes to the destination blob (no de-duplication, no re-ordering) and append its
  index lines with offsets rewritten relative to the destination's running offset.
  It fails, changing nothing, when an input shard file is missing.
\<close>

definition shift_line :: "nat \<Rightarrow> index_line \<Rightarrow> index_line" where
  "shift_line k l = (fst l, k + fst (snd l), snd (snd l))"

definition ffindex_build_as :: "merge_cmd \<Rightarrow> filesys \<Rightarrow> c_int \<times> filesys" where
  "ffindex_build_as c fs =
     (case fs (src_data c) of
        Some (Blob b) \<Rightarrow>
          (case fs (src_index c) of
             Some (Index ls) \<Rightarrow>
               (let old = blob_of fs (dst_data c);
                    fs1 = fs(dst_data c \<mapsto> Blob (old @ b));
                    fs2 = fs1(dst_index c \<mapsto>
                            Index (lines_of fs1 (dst_index c) @ map (shift_line (length old)) ls))
                in (0, fs2))
           | _ \<Rightarrow> (1, fs))
      | _ \<Rightarrow> (1, fs))"

text \<open>
  The characters that mean something to the shell (tab, newline, the signs
  \<^verbatim>\<open>| & ; < > ( ) $ * ? [ ] # ~ = % ! { }\<close>, the backquote, the backslash and the
  two quotes), and the words of a command line that has none of them: its pieces
  between the blanks.
\<close>

definition sh_special :: "char \<Rightarrow> bool" where
  "sh_special c \<longleftrightarrow>
     c \<in> set [CHR 0x09, CHR 0x0A, CHR 0x7C, CHR 0x26, CHR 0x3B, CHR 0x3C, CHR 0x3E, CHR 0x28,
              CHR 0x29, CHR 0x24, CHR 0x60, CHR 0x5C, CHR 0x22, CHR 0x27, CHR 0x2A, CHR 0x3F,
              CHR 0x5B, CHR 0x5D, CHR 0x23, CHR 0x7E, CHR 0x3D, CHR 0x25, CHR 0x21, CHR 0x7B,
              CHR 0x7D]"

fun sh_split :: "string \<Rightarrow> string \<Rightarrow> string list" where
  "sh_split [] word = (if word = [] then [] else [word])"
| "sh_split (c # cs) word =
     (if c = CHR 0x20 then (if word = [] then sh_split cs [] else word # sh_split cs [])
      else sh_split cs (word @ [c]))"

definition sh_words :: "string \<Rightarrow> string list" where
  "sh_words line = sh_split line []"

text \<open>
  Modelled from the spec: \<open>system\<close> on a machine whose \<open>ffindex_build\<close> is the merge
  tool of section 4.5. A command line without special characters whose words are
  \<^verbatim>\<open>ffindex_build -as -d A -i B C D\<close>, with \<open>C\<close> and \<open>D\<close> not beginning with \<^verbatim>\<open>-\<close>,
  runs the merge tool on these four files. What any other command line does is the
  parameter \<open>other\<close>.
\<close>

definition sh_ffindex_build :: "system_fn \<Rightarrow> system_fn" where
  "sh_ffindex_build other line fs =
     (if list_ex sh_special line then other line fs
      else
       (case sh_words line of
          [prog, o1, o2, A, o3, B, C, D] \<Rightarrow>
            if prog = ''ffindex_build'' \<and> o1 = ''-as'' \<and> o2 = ''-d'' \<and> o3 = ''-i''
               \<and> hd C \<noteq> CHR ''-'' \<and> hd D \<noteq> CHR ''-''
            then ffindex_build_as \<lparr>src_data = A, src_index = B, dst_data = C, dst_index = D\<rparr> fs
            else other line fs
        | _ \<Rightarrow> other line fs))"

text \<open>A command line that \<open>/bin/sh\<close> does not find a program for: status 127, no effect.\<close>

definition not_found :: system_fn where
  "not_found line fs = (127, fs)"

definition world0 :: world where
  "world0 = \<lparr>files = Map.empty, stdout_lines = [], calls = [], commands = [],
             removed = [], worker_splits_head = []\<rparr>"

section \<open>Properties the claims ask for\<close>

text \<open>
  Cleanup of one merge step that gave the command line \<open>line\<close> to \<open>system\<close> and has
  the input shard files \<open>src_i\<close> (index) and \<open>src_d\<close> (data), taking the process from
  \<open>w\<close> to \<open>w'\<close>: on status 0 exactly the two input files were removed, the index file
  first, and every other file is as the command left it; on any other status nothing
  was removed.
\<close>

definition cleanup_ok :: "system_fn \<Rightarrow> string \<Rightarrow> string \<Rightarrow> string \<Rightarrow> world \<Rightarrow> world \<Rightarrow> bool" where
  "cleanup_ok system line src_i src_d w w' \<longleftrightarrow>
     commands w' = commands w @ [line]
     \<and> (if fst (system line (files w)) = 0
         then removed w' = removed w @ [src_i, src_d]
              \<and> files w' = (snd (system line (files w)))(src_i := None, src_d := None)
         else removed w' = removed w \<and> files w' = snd (system line (files w)))"

text \<open>
  A base name that can stand in a command line as a file argument: not empty, not
  beginning with \<^verbatim>\<open>-\<close>, without blanks and without characters special to the shell.
\<close>

definition sh_plain :: "string \<Rightarrow> bool" where
  "sh_plain nm \<longleftrightarrow> list_all (\<lambda>c. c \<noteq> CHR 0x20 \<and> \<not> sh_special c) nm"

definition name_ok :: "string \<Rightarrow> bool" where
  "name_ok nm \<longleftrightarrow> nm \<noteq> [] \<and> hd nm \<noteq> CHR ''-'' \<and> sh_plain nm"

text \<open>The lines the runner prints for an entry whose child ended with wait status \<open>st\<close>.\<close>

definition report :: "ffindex_entry \<Rightarrow> wstatus \<Rightarrow> string list" where
  "report entry st =
     (case st of Exited code \<Rightarrow> [progress_line entry code] | Signaled sig \<Rightarrow> [])"

text \<open>
  The kernel's answers for a child suffice: neither the write loop nor, when
  capturing, the reading of the rest meets a call that never returns.
\<close>

definition answers_suffice :: "bool \<Rightarrow> size_t \<Rightarrow> child \<Rightarrow> bool" where
  "answers_suffice capture_stdout to_write ch \<longleftrightarrow>
     write_loop capture_stdout to_write (io ch) 0 [] [] \<noteq> Blocked
     \<and> (capture_stdout \<longrightarrow> read_rest (drain ch) [] [] \<noteq> Blocked)"

text \<open>
  Entry \<open>i\<close> is processed: it is in the index, both pipes and the child are created,
  and the child does not hang.
\<close>

definition entry_runs :: "ffindex_entry list \<Rightarrow> (nat \<Rightarrow> child) \<Rightarrow> bool \<Rightarrow> nat \<Rightarrow> bool" where
  "entry_runs idx child_of capture_stdout i \<longleftrightarrow>
     i < length idx
     \<and> pipe_stdin (child_of i) = None
     \<and> (capture_stdout \<longrightarrow> pipe_stdout (child_of i) = None)
     \<and> fork (child_of i) = None
     \<and> answers_suffice capture_stdout (e_length (idx ! i) - 1) (child_of i)"

text \<open>
  The traffic on the pipes of a child runs to its end: no call hangs and, when
  capturing, no \<open>read\<close> stores beyond \<open>read_buffer\<close>.
\<close>

definition io_completes :: "ffindex_entry \<Rightarrow> bool \<Rightarrow> child \<Rightarrow> bool" where
  "io_completes entry capture_stdout ch \<longleftrightarrow>
     (case pipe_io entry capture_stdout ch [] of
        Ret x \<Rightarrow> True | Blocked \<Rightarrow> False | Crash f \<Rightarrow> False)"

text \<open>
  Entry \<open>k\<close> is processed with the output streams \<open>data_file_out\<close> and
  \<open>index_file_out\<close>: it is in the index, the pipes and the child are created, the
  traffic on the pipes runs to its end, and with the data stream the index stream is
  open too (the shard writer writes to both).
\<close>

definition entry_processed ::
  "ffindex_entry list \<Rightarrow> (nat \<Rightarrow> child) \<Rightarrow> string option \<Rightarrow> string option \<Rightarrow> nat \<Rightarrow> bool" where
  "entry_processed idx child_of data_file_out index_file_out k \<longleftrightarrow>
     k < length idx
     \<and> pipe_stdin (child_of k) = None
     \<and> (data_file_out \<noteq> None \<longrightarrow> pipe_stdout (child_of k) = None)
     \<and> fork (child_of k) = None
     \<and> io_completes (idx ! k) (data_file_out \<noteq> None) (child_of k)
     \<and> (data_file_out \<noteq> None \<longrightarrow> index_file_out \<noteq> None)"

text \<open>The calls that read the child's standard output.\<close>

fun is_read :: "syscall \<Rightarrow> bool" where
  "is_read (SysRead nb a) = True"
| "is_read c = False"

definition reads_of :: "world \<Rightarrow> syscall list" where
  "reads_of w = filter is_read (calls w)"

section \<open>Example data\<close>

text \<open>
  An archive of two entries, \<open>a\<close> with payload \<open>hi\<close> and \<open>b\<close> with payload \<open>x\<close>, and
  a child that takes its whole input, writes \<open>out\<close> to its standard output and ends
  with wait status \<open>st\<close>.
\<close>

definition ex_index :: "ffindex_entry list" where
  "ex_index = [\<lparr>e_offset = 0, e_length = 3, e_name = ''a''\<rparr>,
               \<lparr>e_offset = 3, e_length = 2, e_name = ''b''\<rparr>]"

definition ex_data :: string where
  "ex_data = [CHR ''h'', CHR ''i'', CHR 0x00, CHR ''x'', CHR 0x00]"

definition ex_child :: "wstatus \<Rightarrow> string \<Rightarrow> child" where
  "ex_child st out =
     \<lparr>pipe_stdin = None, pipe_stdout = None, fork = None,
      io = [(WOk 4096, RFail EAGAIN)], drain = [RData out, REof], wait = st\<rparr>"

definition ex_apply_data :: "string option \<Rightarrow> string option \<Rightarrow> ffindex_apply_mpi_data" where
  "ex_apply_data d i =
     \<lparr>a_index = ex_index, a_data = ex_data, a_data_filename_out = d,
      a_index_filename_out = i\<rparr>"

text \<open>The \<open>write\<close> calls that failed.\<close>

fun failed_write :: "syscall \<Rightarrow> bool" where
  "failed_write (SysWrite off n (WFail e)) = True"
| "failed_write c = False"

text \<open>
  Reading the calls of the runner: the number of bytes a \<open>write\<close> asked for, the
  bytes of \<open>filedata\<close> the child's standard input received, the bytes the kernel
  delivered to the reads from the child's standard output, and whether every
  \<open>write\<close> is directly followed by a non-blocking \<open>read\<close>.
\<close>

fun write_count :: "syscall \<Rightarrow> nat" where
  "write_count (SysWrite off n a) = n"
| "write_count c = 0"

fun sent_by :: "string \<Rightarrow> syscall \<Rightarrow> string" where
  "sent_by filedata (SysWrite off n (WOk k)) = take (min k n) (drop off filedata)"
| "sent_by filedata c = []"

definition sent :: "string \<Rightarrow> syscall list \<Rightarrow> string" where
  "sent filedata tr = concat (map (sent_by filedata) tr)"

fun received_by :: "syscall \<Rightarrow> string" where
  "received_by (SysRead nb (RData d)) = d"
| "received_by c = []"

definition received :: "syscall list \<Rightarrow> string" where
  "received tr = concat (map received_by tr)"

fun reads_follow_writes :: "syscall list \<Rightarrow> bool" where
  "reads_follow_writes [] = True"
| "reads_follow_writes (SysWrite off n a # SysRead nb r # tr) = (nb \<and> reads_follow_writes tr)"
| "reads_follow_writes (SysWrite off n a # tr) = False"
| "reads_follow_writes (c # tr) = reads_follow_writes tr"

text \<open>
  A child that takes one byte of input per \<open>write\<close>, has written \<open>o\<close> by the time of
  the second non-blocking read and \<open>k\<close> before it closes its output, and exits with
  status 0.
\<close>

definition ex_slow_child :: child where
  "ex_slow_child =
     \<lparr>pipe_stdin = None, pipe_stdout = None, fork = None,
      io = [(WOk 1, RFail EAGAIN), (WOk 1, RData ''o'')],
      drain = [RData ''k'', REof], wait = Exited 0\<rparr>"

section \<open>The run of all processes and the order of the merges\<close>

text \<open>
  Modelled from the spec: the worker side of the work queue (mpq.c is not part of the
  sources at hand). It runs the callback for each range assigned to this worker, in
  the order in which the ranges are assigned.
\<close>

fun MPQ_worker ::
  "c_int \<Rightarrow> (string \<Rightarrow> bool) \<Rightarrow> (nat \<Rightarrow> child) \<Rightarrow> (size_t \<times> size_t) list
     \<Rightarrow> ffindex_apply_mpi_data \<Rightarrow> world \<Rightarrow> world result" where
  "MPQ_worker rank ff child_of [] ad w = Ret w"
| "MPQ_worker rank ff child_of (c # cs) ad w =
     (case ffindex_apply_worker_payload rank ff child_of (fst c) (snd c) ad w of
        Blocked \<Rightarrow> Blocked
      | Crash f \<Rightarrow> Crash f
      | Ret (st, w') \<Rightarrow> MPQ_worker rank ff child_of cs ad w')"

text \<open>
  \<open>main\<close> on a worker, from \<open>SLIST_INIT\<close> on (lines 455 to 477): the list of
  splits is emptied, the queue runs the callback on the ranges \<open>assigned\<close> to this
  worker, then the worker merges its chunk shards, removing them.
\<close>

definition main_worker ::
  "system_fn \<Rightarrow> c_int \<Rightarrow> (string \<Rightarrow> bool) \<Rightarrow> (nat \<Rightarrow> child) \<Rightarrow> (size_t \<times> size_t) list
     \<Rightarrow> ffindex_apply_mpi_data \<Rightarrow> world \<Rightarrow> world result" where
  "main_worker system MPQ_rank ff child_of assigned ad w =
     (case MPQ_worker MPQ_rank ff child_of assigned ad (w\<lparr>worker_splits_head := []\<rparr>) of
        Blocked \<Rightarrow> Blocked
      | Crash f \<Rightarrow> Crash f
      | Ret w1 \<Rightarrow>
          Ret (ffindex_worker_merge_splits system (a_data_filename_out ad)
                 (a_index_filename_out ad) MPQ_rank True w1))"

text \<open>
  Modelled from the spec: the worker processes of one run (sections 1 and 4.5). The
  workers have the ranks \<open>1\<close> to \<open>MPQ_size - 1\<close>; each writes and removes only files
  that carry its rank, so they are run one after the other here, each on the files
  the one before left, and each with the ranges \<open>assigned\<close> to its rank. After every
  worker has finished, the coordinator merges the worker shards (\<open>main\<close>, lines 499
  to 502). The result is the files at the end.
\<close>

fun run_workers ::
  "system_fn \<Rightarrow> (string \<Rightarrow> bool) \<Rightarrow> (nat \<Rightarrow> child) \<Rightarrow> (c_int \<Rightarrow> (size_t \<times> size_t) list)
     \<Rightarrow> ffindex_apply_mpi_data \<Rightarrow> c_int list \<Rightarrow> filesys \<Rightarrow> filesys result" where
  "run_workers system ff child_of assigned ad [] fs = Ret fs"
| "run_workers system ff child_of assigned ad (r # rs) fs =
     (case main_worker system r ff child_of (assigned r) ad (world0\<lparr>files := fs\<rparr>) of
        Blocked \<Rightarrow> Blocked
      | Crash f \<Rightarrow> Crash f
      | Ret w \<Rightarrow> run_workers system ff child_of assigned ad rs (files w))"

text \<open>
  Modelled from the spec: the whole run, the workers and then the coordinator's merge
  of the worker shards into the final archive.
\<close>

definition run_all ::
  "system_fn \<Rightarrow> (string \<Rightarrow> bool) \<Rightarrow> (nat \<Rightarrow> child) \<Rightarrow> (c_int \<Rightarrow> (size_t \<times> size_t) list)
     \<Rightarrow> ffindex_apply_mpi_data \<Rightarrow> c_int \<Rightarrow> filesys \<Rightarrow> filesys result" where
  "run_all system ff child_of assigned ad MPQ_size fs =
     (case run_workers system ff child_of assigned ad (split_ranks MPQ_size) fs of
        Blocked \<Rightarrow> Blocked
      | Crash f \<Rightarrow> Crash f
      | Ret fs1 \<Rightarrow>
          Ret (files (ffindex_merge_splits system (a_data_filename_out ad)
                        (a_index_filename_out ad) MPQ_size True (world0\<lparr>files := fs1\<rparr>))))"

text \<open>
  The element the callback puts on the list of splits for the chunk \<open>c\<close>: the
  bounds are stored as \<open>int\<close>.
\<close>

definition chunk_split :: "size_t \<times> size_t \<Rightarrow> status \<Rightarrow> worker_splits_s" where
  "chunk_split c st = \<lparr>split_start = ucast (fst c), split_end = ucast (snd c), split_status = st\<rparr>"

text \<open>The names of the entries of a shard, in the order of its index file.\<close>

definition entry_names :: "filesys \<Rightarrow> string \<Rightarrow> string list" where
  "entry_names fs p = map fst (lines_of fs p)"

text \<open>The names of the entries of a chunk, in the order of the index.\<close>

definition chunk_names :: "ffindex_entry list \<Rightarrow> size_t \<times> size_t \<Rightarrow> string list" where
  "chunk_names idx c = map (\<lambda>k. e_name (idx ! k)) [unat (fst c) ..< unat (snd c)]"

text \<open>
  The names of all files the run writes under the base names \<open>d\<close> and \<open>i\<close>: the two
  files of the final archive and, for every worker, its worker shard and its chunk
  shards.
\<close>

definition chunk_shard_names ::
  "string \<Rightarrow> string \<Rightarrow> c_int \<Rightarrow> (size_t \<times> size_t) list \<Rightarrow> string list" where
  "chunk_shard_names d i r cs =
     concat (map (\<lambda>c. [chunk_file_zu d r (fst c) (snd c), chunk_file_zu i r (fst c) (snd c)]) cs)"

definition worker_names ::
  "string \<Rightarrow> string \<Rightarrow> (c_int \<Rightarrow> (size_t \<times> size_t) list) \<Rightarrow> c_int \<Rightarrow> string list" where
  "worker_names d i assigned r =
     rank_file d r # rank_file i r # chunk_shard_names d i r (assigned r)"

definition run_names ::
  "string \<Rightarrow> string \<Rightarrow> (c_int \<Rightarrow> (size_t \<times> size_t) list) \<Rightarrow> c_int list \<Rightarrow> string list" where
  "run_names d i assigned ranks = d # i # concat (map (worker_names d i assigned) ranks)"

text \<open>
  One run of the merge tool followed by the removal of its input shard, on the
  files alone.
\<close>

definition append_and_remove :: "filesys \<Rightarrow> merge_cmd \<Rightarrow> filesys" where
  "append_and_remove fs c =
     (let r = ffindex_build_as c fs
      in if fst r = 0 then (snd r)(src_index c := None, src_data c := None) else snd r)"

text \<open>
  A shard is whole: its index file is missing, or it is an index file and the
  data file is there as well. A shard is there: both files are.
\<close>

definition shard_whole :: "filesys \<Rightarrow> string \<Rightarrow> string \<Rightarrow> bool" where
  "shard_whole fs dat ix \<longleftrightarrow>
     (case fs ix of
        None \<Rightarrow> True
      | Some (Index ls) \<Rightarrow> (case fs dat of Some (Blob b) \<Rightarrow> True | _ \<Rightarrow> False)
      | Some (Blob b) \<Rightarrow> False)"

definition shard_there :: "filesys \<Rightarrow> string \<Rightarrow> string \<Rightarrow> bool" where
  "shard_there fs dat ix \<longleftrightarrow>
     (case fs dat of Some (Blob b) \<Rightarrow> True | _ \<Rightarrow> False)
     \<and> (case fs ix of Some (Index ls) \<Rightarrow> True | _ \<Rightarrow> False)"

text \<open>The file arguments in the merge command of a worker and of the coordinator.\<close>

definition worker_merge_args ::
  "string \<Rightarrow> string \<Rightarrow> c_int \<Rightarrow> worker_splits_s \<Rightarrow> merge_cmd" where
  "worker_merge_args d i rank x =
     \<lparr>src_data = chunk_file_d d rank (split_start x) (split_end x),
      src_index = chunk_file_d i rank (split_start x) (split_end x),
      dst_data = rank_file d rank,
      dst_index = rank_file i rank\<rparr>"

definition merge_args :: "string \<Rightarrow> string \<Rightarrow> c_int \<Rightarrow> merge_cmd" where
  "merge_args d i k =
     \<lparr>src_data = rank_file d k, src_index = rank_file i k, dst_data = d, dst_index = i\<rparr>"

text \<open>The input files of a list of merges.\<close>

definition sources :: "merge_cmd list \<Rightarrow> string list" where
  "sources cmds = concat (map (\<lambda>c. [src_data c, src_index c]) cmds)"

section \<open>Arithmetic of the planner\<close>

lemma ceil_div_nat:
  fixes n k :: nat
  assumes "1 \<le> n" "1 \<le> k"
  shows "int ((n - 1) div k + 1) = \<lceil>real n / real k\<rceil>"
proof -
  define q where "q = (n - 1) div k"
  have a: "q * k \<le> n - 1" unfolding q_def by simp
  have b: "n - 1 < (q + 1) * k" unfolding q_def using assms
    by (metis add.commute dividend_less_times_div mult.commute plus_1_eq_Suc mult_Suc
        zero_less_one_class.zero_less_one less_le_trans)
  from a assms have a': "q * k < n" by linarith
  from b assms have b': "n \<le> (q + 1) * k" by linarith
  have k0: "0 < real k" using assms by simp
  have "real q < real n / real k"
    using a' k0 by (simp add: pos_less_divide_eq flip: of_nat_mult)
  moreover have "real n / real k \<le> real (q + 1)"
  proof -
    have "real n \<le> real ((q + 1) * k)" using b' by (simp only: of_nat_le_iff)
    then have "real n \<le> real (q + 1) * real k" by (simp only: of_nat_mult)
    then show ?thesis using k0 by (simp only: pos_divide_le_eq)
  qed
  ultimately have "\<lceil>real n / real k\<rceil> = int (q + 1)"
    by (intro ceiling_unique) auto
  then show ?thesis by (simp add: q_def)
qed

lemma sint_mul_small:
  fixes a b :: c_int
  assumes "0 \<le> sint a" "0 \<le> sint b" "sint a * sint b < 2 ^ 31"
  shows "sint (a * b) = sint a * sint b"
proof -
  have "0 \<le> sint a * sint b" using assms by simp
  then show ?thesis using assms(3)
    by (simp add: sint_word_ariths signed_take_bit_int_eq_self)
qed

lemma sint_minus1:
  fixes a :: c_int
  assumes "1 \<le> sint a"
  shows "sint (a - 1) = sint a - 1"
proof -
  have "sint a < 2 ^ 31" using sint_lt [of a] by simp
  then show ?thesis using assms
    by (simp add: sint_word_ariths signed_take_bit_int_eq_self)
qed

lemma scast_nonneg:
  fixes a :: c_int
  assumes "0 \<le> sint a"
  shows "unat (scast a :: size_t) = nat (sint a)"
proof -
  have "sint a < 2 ^ 31" using sint_lt [of a] by simp
  also have "(2::int) ^ 31 < 2 ^ 64" by simp
  finally have lt: "sint a < 2 ^ 64" .
  have "uint (scast a :: size_t) = take_bit 64 (sint a)"
    by (simp only: scast_eq uint_word_of_int_eq) simp
  also have "\<dots> = sint a"
    using assms lt by (rule take_bit_int_eq_self)
  finally show ?thesis by (simp only: unat_eq_nat_uint)
qed

lemma ucast_small:
  fixes x :: size_t
  assumes "unat x < 2 ^ 31"
  shows "sint (ucast x :: c_int) = int (unat x)"
proof -
  have u: "int (unat x) = uint x" by simp
  have "int (unat x) < int (2 ^ 31)" using assms by (simp only: of_nat_less_iff)
  then have lt: "uint x < 2 ^ 31" by (simp only: u) simp
  have "sint (ucast x :: c_int) = signed_take_bit 31 (uint x)"
    by (simp only: ucast_eq sint_sbintrunc') simp
  also have "\<dots> = uint x"
  proof (rule signed_take_bit_int_eq_self)
    have "- (2 ^ 31) \<le> (0::int)" by simp
    also have "0 \<le> uint x" by simp
    finally show "- (2 ^ 31) \<le> uint x" .
    show "uint x < 2 ^ 31" by (rule lt)
  qed
  finally show ?thesis by (simp only: u)
qed

lemma unat_quot_succ:
  fixes n d :: size_t
  assumes "n \<noteq> 0"
  shows "unat ((n - 1) div d + 1) = (unat n - 1) div unat d + 1"
proof -
  have "unat ((n - 1) div d) \<le> unat (n - 1)"
    by (simp add: unat_div)
  also have "\<dots> = unat n - 1" using assms by (simp add: unat_minus_one)
  finally have le: "unat ((n - 1) div d) \<le> unat n - 1" .
  have "unat n < 2 ^ 64" using unsigned_less [of n, where 'a=nat] by simp
  with le have "unat ((n - 1) div d) + 1 < 2 ^ 64"
    using assms by (simp add: unat_gt_0 [symmetric])
  then have "unat ((n - 1) div d + 1) = unat ((n - 1) div d) + 1"
    by (simp add: unat_add_lem [THEN iffD1])
  then show ?thesis using assms by (simp add: unat_div unat_minus_one)
qed

lemma sint_chunk_arg: "sint (chunk_arg s) = max 1 (sint s)"
  by (simp add: chunk_arg_def word_sless_alt max_def)

lemma planner_in_range:
  fixes n_entries :: size_t and MPQ_size parts :: c_int
  assumes n: "1 \<le> unat n_entries"
    and W: "1 \<le> sint MPQ_size - 1"
    and P: "1 \<le> sint parts"
    and WP: "(sint MPQ_size - 1) * sint parts < 2 ^ 31"
    and Q: "\<lceil>real (unat n_entries) / real_of_int ((sint MPQ_size - 1) * sint parts)\<rceil> < 2 ^ 31"
  shows "\<exists>c. planner n_entries MPQ_size parts = Inr c
           \<and> sint c = max 1 \<lceil>real (unat n_entries)
                               / real_of_int ((sint MPQ_size - 1) * sint parts)\<rceil>"
proof -
  define k where "k = nat ((sint MPQ_size - 1) * sint parts)"
  define d where "d = (scast ((MPQ_size - 1) * parts) :: size_t)"
  have s1: "sint (MPQ_size - 1) = sint MPQ_size - 1"
    using W by (intro sint_minus1) simp
  have s2: "sint ((MPQ_size - 1) * parts) = (sint MPQ_size - 1) * sint parts"
    using W P WP by (simp add: sint_mul_small s1)
  have kpos: "1 \<le> k"
  proof -
    have "1 * 1 \<le> (sint MPQ_size - 1) * sint parts"
      using W P by (intro mult_mono) simp_all
    then show ?thesis by (simp add: k_def)
  qed
  have ud: "unat d = k"
    unfolding d_def k_def using W P by (simp add: scast_nonneg s2)
  have d0: "d \<noteq> 0" using ud kpos by (auto simp: unat_eq_zero [symmetric])
  have n0: "n_entries \<noteq> 0" using n by (auto simp: unat_eq_zero [symmetric])
  have rk: "real_of_int ((sint MPQ_size - 1) * sint parts) = real k"
    using kpos by (simp add: k_def)
  have uq: "unat ((n_entries - 1) div d + 1) = (unat n_entries - 1) div k + 1"
    using unat_quot_succ [OF n0, of d] by (simp only: ud)
  have cq: "int ((unat n_entries - 1) div k + 1) = \<lceil>real (unat n_entries) / real k\<rceil>"
    using n kpos by (rule ceil_div_nat)
  have "int ((unat n_entries - 1) div k + 1) < 2 ^ 31"
    using Q by (simp only: cq rk)
  then have "(unat n_entries - 1) div k + 1 < 2 ^ 31"
    by (simp only: of_nat_less_numeral_power_cancel_iff)
  then have small: "unat ((n_entries - 1) div d + 1) < 2 ^ 31"
    by (simp only: uq)
  have ss: "split_size n_entries MPQ_size parts = Inr (ucast ((n_entries - 1) div d + 1))"
    using d0 by (simp add: split_size_def d_def Let_def)
  have sc: "sint (ucast ((n_entries - 1) div d + 1) :: c_int)
          = \<lceil>real (unat n_entries) / real k\<rceil>"
    by (simp only: ucast_small [OF small] uq cq)
  have "planner n_entries MPQ_size parts
          = Inr (chunk_arg (ucast ((n_entries - 1) div d + 1)))"
    by (simp only: planner_def ss sum.case)
  moreover have "sint (chunk_arg (ucast ((n_entries - 1) div d + 1) :: c_int))
          = max 1 \<lceil>real (unat n_entries) / real k\<rceil>"
    by (simp only: sint_chunk_arg sc)
  ultimately show ?thesis by (simp only: rk) blast
qed

section \<open>The chunks handed out\<close>

declare MPQ_chunks_from.simps [simp del]

lemma chunks_from_Nil: "c = 0 \<or> n \<le> s \<Longrightarrow> MPQ_chunks_from s n c = []"
  by (subst MPQ_chunks_from.simps) simp

lemma chunks_from_Cons:
  "0 < c \<Longrightarrow> s < n \<Longrightarrow>
     MPQ_chunks_from s n c = (s, min (s + c) n) # MPQ_chunks_from (s + c) n c"
  by (subst MPQ_chunks_from.simps) simp

lemma chunk_indices_pair: "chunk_indices (a, b) = [a ..< b]"
  by (simp add: chunk_indices_def)

lemma chunk_len_pair: "chunk_len (a, b) = b - a"
  by (simp add: chunk_len_def)

lemma chunks_from_cover:
  "0 < c \<Longrightarrow> concat (map chunk_indices (MPQ_chunks_from s n c)) = [s ..< n]"
proof (induction s n c rule: MPQ_chunks_from.induct)
  case (1 s n c)
  show ?case
  proof (cases "s < n")
    case False
    then show ?thesis by (simp add: chunks_from_Nil)
  next
    case True
    have ih: "concat (map chunk_indices (MPQ_chunks_from (s + c) n c)) = [s + c ..< n]"
      using "1" True by simp
    show ?thesis
    proof (cases "s + c \<le> n")
      case True
      then have "[s ..< n] = [s ..< s + c] @ [s + c ..< n]"
        by (metis le_add1 le_Suc_ex upt_add_eq_append)
      with True \<open>s < n\<close> "1.prems" ih show ?thesis
        by (simp add: chunks_from_Cons chunk_indices_pair min_def)
    next
      case False
      with \<open>s < n\<close> "1.prems" ih show ?thesis
        by (simp add: chunks_from_Cons chunk_indices_pair min_def)
    qed
  qed
qed

lemma chunks_from_bounds:
  "0 < c \<Longrightarrow> ch \<in> set (MPQ_chunks_from s n c) \<Longrightarrow>
     s \<le> fst ch \<and> fst ch < snd ch \<and> snd ch \<le> n \<and> chunk_len ch \<le> c"
proof (induction s n c rule: MPQ_chunks_from.induct)
  case (1 s n c)
  show ?case
  proof (cases "s < n")
    case False
    with "1.prems" show ?thesis by (simp add: chunks_from_Nil)
  next
    case True
    with "1.prems" have "ch = (s, min (s + c) n) \<or> ch \<in> set (MPQ_chunks_from (s + c) n c)"
      by (simp add: chunks_from_Cons)
    then show ?thesis
    proof
      assume "ch = (s, min (s + c) n)"
      with True "1.prems" show ?thesis by (auto simp: chunk_len_pair min_def)
    next
      assume "ch \<in> set (MPQ_chunks_from (s + c) n c)"
      with "1.IH" "1.prems" True show ?thesis by fastforce
    qed
  qed
qed

lemma chunks_from_ordered:
  "0 < c \<Longrightarrow> sorted_wrt (\<lambda>a b. snd a \<le> fst b) (MPQ_chunks_from s n c)"
proof (induction s n c rule: MPQ_chunks_from.induct)
  case (1 s n c)
  show ?case
  proof (cases "s < n")
    case False
    then show ?thesis by (simp add: chunks_from_Nil)
  next
    case True
    have "\<forall>y \<in> set (MPQ_chunks_from (s + c) n c). min (s + c) n \<le> fst y"
      using chunks_from_bounds [OF "1.prems"] by fastforce
    with "1" True show ?thesis by (simp add: chunks_from_Cons)
  qed
qed

lemma chunks_from_full:
  "0 < c \<Longrightarrow> ch \<in> set (butlast (MPQ_chunks_from s n c)) \<Longrightarrow> chunk_len ch = c"
proof (induction s n c rule: MPQ_chunks_from.induct)
  case (1 s n c)
  show ?case
  proof (cases "s < n")
    case False
    with "1.prems" show ?thesis by (simp add: chunks_from_Nil)
  next
    case True
    note lt = this
    show ?thesis
    proof (cases "s + c < n")
      case False
      then have "MPQ_chunks_from (s + c) n c = []" by (simp add: chunks_from_Nil)
      with "1.prems" lt show ?thesis by (simp add: chunks_from_Cons)
    next
      case True
      then have ne: "MPQ_chunks_from (s + c) n c \<noteq> []"
        using "1.prems"(1) by (simp add: chunks_from_Cons)
      with "1.prems" lt
      have "ch = (s, min (s + c) n) \<or> ch \<in> set (butlast (MPQ_chunks_from (s + c) n c))"
        by (simp add: chunks_from_Cons)
      then show ?thesis
      proof
        assume "ch = (s, min (s + c) n)"
        with True show ?thesis by (auto simp: chunk_len_pair min_def)
      next
        assume "ch \<in> set (butlast (MPQ_chunks_from (s + c) n c))"
        with "1.IH" "1.prems"(1) lt show ?thesis by simp
      qed
    qed
  qed
qed

lemma ordered_disjoint:
  assumes "sorted_wrt (\<lambda>a b. snd a \<le> fst b) cs"
    and "i < length cs" "j < length cs" "i \<noteq> j"
  shows "set (chunk_indices (cs ! i)) \<inter> set (chunk_indices (cs ! j)) = {}"
proof -
  have *: "set (chunk_indices (cs ! a)) \<inter> set (chunk_indices (cs ! b)) = {}"
    if "a < b" "b < length cs" for a b
  proof -
    from assms(1) that have "snd (cs ! a) \<le> fst (cs ! b)"
      by (simp add: sorted_wrt_iff_nth_less)
    then show ?thesis by (auto simp: chunk_indices_def)
  qed
  from assms(4) consider "i < j" | "j < i" by linarith
  then show ?thesis
  proof cases
    case 1
    then show ?thesis using * assms(3) by blast
  next
    case 2
    then show ?thesis using * [OF 2 assms(2)] by blast
  qed
qed

lemma chunks_properties:
  assumes c: "0 < c" and n: "0 < n"
  shows "concat (map chunk_indices (MPQ_chunks n c)) = [0 ..< n]"
    and "\<forall>i<length (MPQ_chunks n c). \<forall>j<length (MPQ_chunks n c). i \<noteq> j \<longrightarrow>
           set (chunk_indices (MPQ_chunks n c ! i))
             \<inter> set (chunk_indices (MPQ_chunks n c ! j)) = {}"
    and "sorted_wrt (\<lambda>a b. snd a \<le> fst b) (MPQ_chunks n c)"
    and "\<forall>ch \<in> set (butlast (MPQ_chunks n c)). chunk_len ch = c"
    and "MPQ_chunks n c \<noteq> []"
    and "0 < chunk_len (last (MPQ_chunks n c))"
    and "chunk_len (last (MPQ_chunks n c)) \<le> c"
proof -
  show "concat (map chunk_indices (MPQ_chunks n c)) = [0 ..< n]"
    unfolding MPQ_chunks_def using c by (rule chunks_from_cover)
  show ord: "sorted_wrt (\<lambda>a b. snd a \<le> fst b) (MPQ_chunks n c)"
    unfolding MPQ_chunks_def using c by (rule chunks_from_ordered)
  show "\<forall>i<length (MPQ_chunks n c). \<forall>j<length (MPQ_chunks n c). i \<noteq> j \<longrightarrow>
           set (chunk_indices (MPQ_chunks n c ! i))
             \<inter> set (chunk_indices (MPQ_chunks n c ! j)) = {}"
    using ordered_disjoint [OF ord] by blast
  show "\<forall>ch \<in> set (butlast (MPQ_chunks n c)). chunk_len ch = c"
    unfolding MPQ_chunks_def using chunks_from_full [OF c] by blast
  show ne: "MPQ_chunks n c \<noteq> []"
    unfolding MPQ_chunks_def using c n by (simp add: chunks_from_Cons)
  then have "last (MPQ_chunks n c) \<in> set (MPQ_chunks_from 0 n c)"
    unfolding MPQ_chunks_def by (rule last_in_set)
  from chunks_from_bounds [OF c this]
  show "0 < chunk_len (last (MPQ_chunks n c))" "chunk_len (last (MPQ_chunks n c)) \<le> c"
    by (simp_all add: chunk_len_def)
qed

section \<open>Claims about the partition planner\<close>

text \<open>
  C1 (as amended). For \<open>n \<ge> 1\<close> entries, \<open>W = MPQ_size - 1 \<ge> 1\<close> workers and
  \<open>parts \<ge> 1\<close>, provided \<open>W * parts\<close> and \<open>ceil (n / (W * parts))\<close> both fit into a
  signed 32-bit \<open>int\<close>, the chunk size computed in \<open>main\<close> is
  \<open>max 1 (ceil (n / (W * parts)))\<close>, and the chunks handed out with that size list the
  indices \<open>0, \<dots>, n - 1\<close> in increasing order, each exactly once (so they are pairwise
  disjoint and cover \<open>[0, n)\<close>), every chunk but the last has the computed size, and
  the last one is non-empty and no longer than the computed size.
\<close>

theorem partition_plan_in_int_range:
  fixes n_entries :: size_t and MPQ_size parts :: c_int
  assumes "1 \<le> unat n_entries"
    and "1 \<le> sint MPQ_size - 1"
    and "1 \<le> sint parts"
    and "(sint MPQ_size - 1) * sint parts < 2 ^ 31"
    and "\<lceil>real (unat n_entries) / real_of_int ((sint MPQ_size - 1) * sint parts)\<rceil> < 2 ^ 31"
  shows "\<exists>c. planner n_entries MPQ_size parts = Inr c
           \<and> sint c = max 1 \<lceil>real (unat n_entries)
                               / real_of_int ((sint MPQ_size - 1) * sint parts)\<rceil>
           \<and> plan_ok (unat n_entries) (nat (sint c))
                (MPQ_chunks (unat n_entries) (nat (sint c)))"
proof -
  from planner_in_range [OF assms] obtain c where
    pl: "planner n_entries MPQ_size parts = Inr c" and
    sc: "sint c = max 1 \<lceil>real (unat n_entries)
                             / real_of_int ((sint MPQ_size - 1) * sint parts)\<rceil>"
    by blast
  from sc have "1 \<le> sint c" by simp
  then have c0: "0 < nat (sint c)" by simp
  from assms(1) have n0: "0 < unat n_entries" by simp
  have "plan_ok (unat n_entries) (nat (sint c)) (MPQ_chunks (unat n_entries) (nat (sint c)))"
    unfolding plan_ok_def using chunks_properties [OF c0 n0] by blast
  with pl sc show ?thesis by blast
qed

text \<open>
  The spec's scenario: 25 entries, 2 workers (3 processes), 5 parts give chunk size 3
  and the nine chunks \<open>[0,3), \<dots>, [21,24), [24,25)\<close>.
\<close>

theorem partition_plan_scenario:
  "planner 25 3 5 = Inr 3
   \<and> MPQ_chunks 25 3 =
       [(0, 3), (3, 6), (6, 9), (9, 12), (12, 15), (15, 18), (18, 21), (21, 24), (24, 25)]
   \<and> (\<exists>c. planner 25 3 5 = Inr c
           \<and> sint c = max 1 \<lceil>real (unat (25 :: size_t))
                               / real_of_int ((sint (3 :: c_int) - 1) * sint (5 :: c_int))\<rceil>
           \<and> plan_ok (unat (25 :: size_t)) (nat (sint c))
                (MPQ_chunks (unat (25 :: size_t)) (nat (sint c))))"
proof -
  have a: "planner 25 3 5 = Inr 3"
    by (simp add: planner_def split_size_def chunk_arg_def word_sless_alt)
  have b: "MPQ_chunks 25 3 =
       [(0, 3), (3, 6), (6, 9), (9, 12), (12, 15), (15, 18), (18, 21), (21, 24), (24, 25)]"
    by (simp add: MPQ_chunks_def MPQ_chunks_from.simps)
  have c: "\<exists>c. planner 25 3 5 = Inr c
           \<and> sint c = max 1 \<lceil>real (unat (25 :: size_t))
                               / real_of_int ((sint (3 :: c_int) - 1) * sint (5 :: c_int))\<rceil>
           \<and> plan_ok (unat (25 :: size_t)) (nat (sint c))
                (MPQ_chunks (unat (25 :: size_t)) (nat (sint c)))"
    by (rule partition_plan_in_int_range) simp_all
  from a b c show ?thesis by blast
qed

text \<open>
  The claim as written, for every \<open>n\<close>: with one worker, the default ten parts and
  \<open>10 * 2^32 + 1\<close> entries the quotient \<open>2^32 + 1\<close> does not fit the \<open>int\<close> it is
  stored in, and the planner passes chunk size 1 where the claim asks for
  \<open>4294967297\<close>.
\<close>

theorem partition_plan_overflow:
  "planner 42949672961 2 10 = Inr 1
   \<and> max 1 \<lceil>real (unat (42949672961 :: size_t))
               / real_of_int ((sint (2 :: c_int) - 1) * sint (10 :: c_int))\<rceil> = 4294967297"
  by (simp add: planner_def split_size_def chunk_arg_def word_sless_alt)

section \<open>Claims about the options and the failed fetch\<close>

lemma parts_default: "parts (main_getopt_loop []) = 10"
  by (simp add: main_getopt_loop_def main_init_def)

lemma parts_other_options:
  "\<forall>oa \<in> set found. fst oa \<noteq> CHR ''p'' \<Longrightarrow> parts (foldl main_switch v found) = parts v"
  by (induction found arbitrary: v) (auto simp: main_switch_def Let_def)

lemma parts_is_the_address:
  "parts (main_getopt_loop [(CHR ''p'', Some (addr, txt))]) = ucast addr"
  by (simp add: main_getopt_loop_def main_init_def main_switch_def ptr_to_int_def)

text \<open>
  C7. The default of \<open>parts\<close> is 10, but \<^verbatim>\<open>-p PARTS\<close> does not make the planner use
  the number \<open>PARTS\<close>: with 25 entries, one worker and \<^verbatim>\<open>-p5\<close>, the text \<open>5\<close> lying
  at address \<open>0x7FFD5E3A1C45\<close>, \<open>parts\<close> is \<open>0x5E3A1C45\<close> and the chunk size is 1,
  where \<open>parts = 5\<close> gives chunk size 5.
\<close>

theorem parts_option_is_not_parsed:
  "parts (main_getopt_loop []) = 10
   \<and> parts (main_getopt_loop [(CHR ''p'', Some (0x7FFD5E3A1C45, ''5''))]) = 0x5E3A1C45
   \<and> main_chunk_size 25 2 [(CHR ''p'', Some (0x7FFD5E3A1C45, ''5''))] = Inr 1
   \<and> planner 25 2 5 = Inr 5"
  by (simp add: main_chunk_size_def main_getopt_loop_def main_init_def main_switch_def
      ptr_to_int_def planner_def split_size_def chunk_arg_def word_sless_alt)

text \<open>
  C8. When the fetch of an entry fails, the error branch reads the name of the missing
  entry: for the chunk \<open>[2, 3)\<close> of an index with two entries the worker faults
  instead of returning an error status.
\<close>

theorem failed_fetch_faults:
  "ffindex_apply_worker_payload 1 (\<lambda>p. False) child_of 2 3
     \<lparr>a_index = [\<lparr>e_offset = 0, e_length = 2, e_name = ''a''\<rparr>,
                 \<lparr>e_offset = 2, e_length = 2, e_name = ''b''\<rparr>],
      a_data = [CHR ''x'', CHR 0x00, CHR ''y'', CHR 0x00],
      a_data_filename_out = None, a_index_filename_out = None\<rparr> world0
   = Crash SIGSEGV"
  by (simp add: ffindex_apply_worker_payload_def fopen_fails_on_def fopen_w_def
      ffindex_get_entry_by_index_def)

lemma failed_fetch_faults_always:
  "length idx \<le> i \<Longrightarrow>
     payload_loop idx child_of data_file_out index_file_out (i # rest) offset w = Crash SIGSEGV"
  by (simp add: ffindex_get_entry_by_index_def)


section \<open>Printed numbers and file names\<close>

declare show_nat.simps [simp del]

lemma show_nat_digit: "n < 10 \<Longrightarrow> show_nat n = [digit n]"
  by (subst show_nat.simps) simp

lemma show_nat_numeral [simp]:
  "show_nat (numeral k) =
     (if (numeral k :: nat) < 10 then [digit (numeral k)]
      else show_nat (numeral k div 10) @ [digit (numeral k mod 10)])"
  by (subst show_nat.simps) simp

lemma show_nat_0 [simp]: "show_nat 0 = ''0''"
  by (subst show_nat.simps) (simp add: digit_def)

lemma show_nat_1 [simp]: "show_nat (Suc 0) = ''1''"
  by (subst show_nat.simps) (simp add: digit_def)

lemma show_nat_nonempty: "show_nat n \<noteq> []"
  by (subst show_nat.simps) simp

lemma show_int_nonempty: "show_int i \<noteq> []"
  by (simp add: show_int_def show_nat_nonempty)

lemma chunk_file_d_rank_file:
  "chunk_file_d base rank s e
     = rank_file base rank @ ''.'' @ show_int (sint s) @ ''.'' @ show_int (sint e)"
  by (simp add: chunk_file_d_def rank_file_def)

lemma chunk_file_not_rank_file: "rank_file base rank \<noteq> chunk_file_d base rank s e"
  by (simp add: chunk_file_d_rank_file)

lemma rank_file_not_base: "base \<noteq> rank_file base rank"
  by (simp add: rank_file_def)

lemma snprintf_fits: "length formatted < FILENAME_MAX \<Longrightarrow> snprintf FILENAME_MAX formatted = formatted"
  by (simp add: snprintf_def FILENAME_MAX_def)

section \<open>The words of the merge commands\<close>

lemma digit_plain: "d < 10 \<Longrightarrow> sh_plain [digit d]"
proof -
  assume "d < 10"
  then have "d \<in> {0, 1, 2, 3, 4, 5, 6, 7, 8, 9}" by auto
  then show ?thesis
    by (auto simp: digit_def sh_plain_def sh_special_def)
qed

lemma sh_plain_append [simp]: "sh_plain (a @ b) \<longleftrightarrow> sh_plain a \<and> sh_plain b"
  by (simp add: sh_plain_def)

lemma sh_plain_show_nat: "sh_plain (show_nat n)"
proof (induction n rule: show_nat.induct)
  case (1 n)
  show ?case
  proof (cases "n < 10")
    case True
    then show ?thesis by (simp add: show_nat_digit digit_plain)
  next
    case False
    have "sh_plain [digit (n mod 10)]" by (rule digit_plain) simp
    with False 1 show ?thesis by (subst show_nat.simps) simp
  qed
qed

lemma sh_plain_show_int: "sh_plain (show_int i)"
proof (cases "i < 0")
  case True
  have "sh_plain ''-''" by (simp add: sh_plain_def sh_special_def)
  with True sh_plain_show_nat [of "nat (- i)"] show ?thesis
    by (simp add: show_int_def sh_plain_def)
next
  case False
  with sh_plain_show_nat [of "nat i"] show ?thesis by (simp add: show_int_def)
qed

lemma sh_plain_dot: "sh_plain (CHR ''.'' # word) \<longleftrightarrow> sh_plain word"
  by (simp add: sh_plain_def sh_special_def)

lemma sh_plain_rank_file: "sh_plain base \<Longrightarrow> sh_plain (rank_file base rank)"
  by (simp add: rank_file_def sh_plain_dot sh_plain_show_int)

lemma sh_plain_chunk_file_d: "sh_plain base \<Longrightarrow> sh_plain (chunk_file_d base rank s e)"
  by (simp add: chunk_file_d_def sh_plain_dot sh_plain_show_int)

lemma sh_split_word: "sh_plain word \<Longrightarrow> sh_split (word @ rest) cur = sh_split rest (cur @ word)"
  by (induction word arbitrary: cur) (simp_all add: sh_plain_def)

lemma sh_split_last: "sh_plain word \<Longrightarrow> word \<noteq> [] \<Longrightarrow> sh_split word [] = [word]"
  using sh_split_word [of word "[]" "[]"] by simp

lemma sh_plain_no_special: "sh_plain word \<Longrightarrow> \<not> list_ex sh_special word"
  by (auto simp: sh_plain_def list_ex_iff list_all_iff)

lemma sh_words_build:
  assumes "sh_plain A" "A \<noteq> []" "sh_plain B" "B \<noteq> []" "sh_plain C" "C \<noteq> []"
    "sh_plain D" "D \<noteq> []"
  shows "sh_words (''ffindex_build -as -d '' @ A @ '' -i '' @ B @ '' '' @ C @ '' '' @ D)
           = [''ffindex_build'', ''-as'', ''-d'', A, ''-i'', B, C, D]"
proof -
  have d: "sh_split D [] = [D]" using assms by (simp add: sh_split_last)
  have c: "sh_split (C @ '' '' @ D) [] = [C, D]"
    using assms by (simp add: sh_split_word d)
  have b: "sh_split (B @ '' '' @ C @ '' '' @ D) [] = [B, C, D]"
    using assms c by (simp add: sh_split_word)
  have a: "sh_split (A @ '' -i '' @ B @ '' '' @ C @ '' '' @ D) [] = [A, ''-i'', B, C, D]"
    using assms b by (simp add: sh_split_word)
  show ?thesis using a by (simp add: sh_words_def)
qed

lemma no_special_build:
  assumes "sh_plain A" "sh_plain B" "sh_plain C" "sh_plain D"
  shows "\<not> list_ex sh_special
             (''ffindex_build -as -d '' @ A @ '' -i '' @ B @ '' '' @ C @ '' '' @ D)"
  using assms [THEN sh_plain_no_special] by (simp add: sh_special_def)

lemma rank_file_nonempty: "rank_file base rank \<noteq> []"
  by (simp add: rank_file_def)

lemma chunk_file_d_nonempty: "chunk_file_d base rank s e \<noteq> []"
  by (simp add: chunk_file_d_def)

lemma worker_merge_text_longer:
  "length (chunk_file_d d rank (split_start x) (split_end x)) < length (worker_merge_text d i rank x)"
  "length (chunk_file_d i rank (split_start x) (split_end x)) < length (worker_merge_text d i rank x)"
  by (simp_all add: worker_merge_text_def)

lemma merge_text_longer:
  "length (rank_file d k) < length (merge_text d i k)"
  "length (rank_file i k) < length (merge_text d i k)"
  by (simp_all add: merge_text_def)

lemma worker_command_words:
  assumes fits: "length (worker_merge_text d i rank x) < FILENAME_MAX"
    and d: "name_ok d" and i: "name_ok i"
  shows "snprintf FILENAME_MAX (chunk_file_d d rank (split_start x) (split_end x))
           = chunk_file_d d rank (split_start x) (split_end x)"
    and "snprintf FILENAME_MAX (chunk_file_d i rank (split_start x) (split_end x))
           = chunk_file_d i rank (split_start x) (split_end x)"
    and "sh_words (worker_merge_command d i rank x)
           = [''ffindex_build'', ''-as'', ''-d'',
              chunk_file_d d rank (split_start x) (split_end x), ''-i'',
              chunk_file_d i rank (split_start x) (split_end x),
              rank_file d rank, rank_file i rank]"
    and "\<not> list_ex sh_special (worker_merge_command d i rank x)"
proof -
  from fits worker_merge_text_longer [where d = d and i = i and rank = rank and x = x]
  show "snprintf FILENAME_MAX (chunk_file_d d rank (split_start x) (split_end x))
           = chunk_file_d d rank (split_start x) (split_end x)"
    and "snprintf FILENAME_MAX (chunk_file_d i rank (split_start x) (split_end x))
           = chunk_file_d i rank (split_start x) (split_end x)"
    by (simp_all add: snprintf_fits)
  from d i have p: "sh_plain d" "sh_plain i" by (simp_all add: name_ok_def)
  from fits have c: "worker_merge_command d i rank x = worker_merge_text d i rank x"
    by (simp add: worker_merge_command_def snprintf_fits)
  show "sh_words (worker_merge_command d i rank x)
           = [''ffindex_build'', ''-as'', ''-d'',
              chunk_file_d d rank (split_start x) (split_end x), ''-i'',
              chunk_file_d i rank (split_start x) (split_end x),
              rank_file d rank, rank_file i rank]"
    unfolding c worker_merge_text_def
    by (rule sh_words_build)
      (simp_all add: p sh_plain_chunk_file_d sh_plain_rank_file rank_file_nonempty
        chunk_file_d_nonempty)
  show "\<not> list_ex sh_special (worker_merge_command d i rank x)"
    unfolding c worker_merge_text_def
    by (rule no_special_build)
      (simp_all add: p sh_plain_chunk_file_d sh_plain_rank_file)
qed

lemma command_words:
  assumes fits: "length (merge_text d i k) < FILENAME_MAX"
    and d: "name_ok d" and i: "name_ok i"
  shows "snprintf FILENAME_MAX (rank_file d k) = rank_file d k"
    and "snprintf FILENAME_MAX (rank_file i k) = rank_file i k"
    and "sh_words (merge_command d i k)
           = [''ffindex_build'', ''-as'', ''-d'', rank_file d k, ''-i'', rank_file i k, d, i]"
    and "\<not> list_ex sh_special (merge_command d i k)"
proof -
  from fits merge_text_longer [where d = d and i = i and k = k]
  show "snprintf FILENAME_MAX (rank_file d k) = rank_file d k"
    and "snprintf FILENAME_MAX (rank_file i k) = rank_file i k"
    by (simp_all add: snprintf_fits)
  from d i have p: "sh_plain d" "sh_plain i" "d \<noteq> []" "i \<noteq> []"
    by (simp_all add: name_ok_def)
  from fits have c: "merge_command d i k = merge_text d i k"
    by (simp add: merge_command_def snprintf_fits)
  show "sh_words (merge_command d i k)
           = [''ffindex_build'', ''-as'', ''-d'', rank_file d k, ''-i'', rank_file i k, d, i]"
    unfolding c merge_text_def
    by (rule sh_words_build) (simp_all add: p sh_plain_rank_file rank_file_nonempty)
  show "\<not> list_ex sh_special (merge_command d i k)"
    unfolding c merge_text_def
    by (rule no_special_build) (simp_all add: p sh_plain_rank_file)
qed

section \<open>Claims about the cleanup after a merge\<close>

lemma worker_merge_step_cleanup:
  "cleanup_ok system (worker_merge_command d i rank x)
     (snprintf FILENAME_MAX (chunk_file_d i rank (split_start x) (split_end x)))
     (snprintf FILENAME_MAX (chunk_file_d d rank (split_start x) (split_end x)))
     w (worker_merge_step system d i rank True w x)"
  by (simp add: cleanup_ok_def worker_merge_step_def run_system_def remove_file_def Let_def)

lemma merge_step_cleanup:
  "cleanup_ok system (merge_command d i k)
     (snprintf FILENAME_MAX (rank_file i k)) (snprintf FILENAME_MAX (rank_file d k))
     w (merge_step system d i True w k)"
  by (simp add: cleanup_ok_def merge_step_def run_system_def remove_file_def Let_def)

text \<open>
  C5 (as amended). Every merge step, of the worker (chunk shard into worker shard)
  and of the coordinator (worker shard into the final archive), called with
  \<open>remove_temporary = 1\<close> as \<open>main\<close> does: if the merge command exits with status 0
  the step removes exactly its two input shard files, index file then data file;
  otherwise it removes nothing. When the command line fits \<open>FILENAME_MAX\<close> and the
  base names can stand as file arguments, the two files are the \<open>-d\<close> and \<open>-i\<close>
  arguments of the command line, its last two words are the destination, and a
  destination file is among the removed ones exactly when a destination name is
  the input name of the other kind.
\<close>

theorem merge_cleanup:
  "cleanup_ok system (worker_merge_command d i rank x)
     (snprintf FILENAME_MAX (chunk_file_d i rank (split_start x) (split_end x)))
     (snprintf FILENAME_MAX (chunk_file_d d rank (split_start x) (split_end x)))
     w (worker_merge_step system d i rank True w x)
   \<and> cleanup_ok system (merge_command d i k)
       (snprintf FILENAME_MAX (rank_file i k)) (snprintf FILENAME_MAX (rank_file d k))
       w (merge_step system d i True w k)
   \<and> (length (worker_merge_text d i rank x) < FILENAME_MAX \<and> name_ok d \<and> name_ok i \<longrightarrow>
        sh_words (worker_merge_command d i rank x)
          = [''ffindex_build'', ''-as'', ''-d'',
             snprintf FILENAME_MAX (chunk_file_d d rank (split_start x) (split_end x)), ''-i'',
             snprintf FILENAME_MAX (chunk_file_d i rank (split_start x) (split_end x)),
             rank_file d rank, rank_file i rank]
        \<and> ((rank_file d rank
               \<in> set [snprintf FILENAME_MAX (chunk_file_d i rank (split_start x) (split_end x)),
                      snprintf FILENAME_MAX (chunk_file_d d rank (split_start x) (split_end x))]
             \<or> rank_file i rank
               \<in> set [snprintf FILENAME_MAX (chunk_file_d i rank (split_start x) (split_end x)),
                      snprintf FILENAME_MAX (chunk_file_d d rank (split_start x) (split_end x))])
            \<longleftrightarrow> (rank_file d rank = chunk_file_d i rank (split_start x) (split_end x)
                 \<or> rank_file i rank = chunk_file_d d rank (split_start x) (split_end x))))
   \<and> (length (merge_text d i k) < FILENAME_MAX \<and> name_ok d \<and> name_ok i \<longrightarrow>
        sh_words (merge_command d i k)
          = [''ffindex_build'', ''-as'', ''-d'', snprintf FILENAME_MAX (rank_file d k), ''-i'',
             snprintf FILENAME_MAX (rank_file i k), d, i]
        \<and> ((d \<in> set [snprintf FILENAME_MAX (rank_file i k), snprintf FILENAME_MAX (rank_file d k)]
             \<or> i \<in> set [snprintf FILENAME_MAX (rank_file i k), snprintf FILENAME_MAX (rank_file d k)])
            \<longleftrightarrow> (d = rank_file i k \<or> i = rank_file d k)))"
proof (intro conjI impI)
  show "cleanup_ok system (worker_merge_command d i rank x)
     (snprintf FILENAME_MAX (chunk_file_d i rank (split_start x) (split_end x)))
     (snprintf FILENAME_MAX (chunk_file_d d rank (split_start x) (split_end x)))
     w (worker_merge_step system d i rank True w x)"
    by (rule worker_merge_step_cleanup)
  show "cleanup_ok system (merge_command d i k)
       (snprintf FILENAME_MAX (rank_file i k)) (snprintf FILENAME_MAX (rank_file d k))
       w (merge_step system d i True w k)"
    by (rule merge_step_cleanup)
next
  assume h: "length (worker_merge_text d i rank x) < FILENAME_MAX \<and> name_ok d \<and> name_ok i"
  then have fits: "length (worker_merge_text d i rank x) < FILENAME_MAX"
    and d: "name_ok d" and i: "name_ok i" by simp_all
  note W = worker_command_words [OF fits d i]
  show "sh_words (worker_merge_command d i rank x)
          = [''ffindex_build'', ''-as'', ''-d'',
             snprintf FILENAME_MAX (chunk_file_d d rank (split_start x) (split_end x)), ''-i'',
             snprintf FILENAME_MAX (chunk_file_d i rank (split_start x) (split_end x)),
             rank_file d rank, rank_file i rank]"
    by (simp only: W)
  show "(rank_file d rank
               \<in> set [snprintf FILENAME_MAX (chunk_file_d i rank (split_start x) (split_end x)),
                      snprintf FILENAME_MAX (chunk_file_d d rank (split_start x) (split_end x))]
             \<or> rank_file i rank
               \<in> set [snprintf FILENAME_MAX (chunk_file_d i rank (split_start x) (split_end x)),
                      snprintf FILENAME_MAX (chunk_file_d d rank (split_start x) (split_end x))])
            \<longleftrightarrow> (rank_file d rank = chunk_file_d i rank (split_start x) (split_end x)
                 \<or> rank_file i rank = chunk_file_d d rank (split_start x) (split_end x))"
    unfolding W(1,2) using chunk_file_not_rank_file [of d rank] chunk_file_not_rank_file [of i rank]
    by auto
next
  assume h: "length (merge_text d i k) < FILENAME_MAX \<and> name_ok d \<and> name_ok i"
  then have fits: "length (merge_text d i k) < FILENAME_MAX"
    and d: "name_ok d" and i: "name_ok i" by simp_all
  note W = command_words [OF fits d i]
  show "sh_words (merge_command d i k)
          = [''ffindex_build'', ''-as'', ''-d'', snprintf FILENAME_MAX (rank_file d k), ''-i'',
             snprintf FILENAME_MAX (rank_file i k), d, i]"
    by (simp only: W)
  show "(d \<in> set [snprintf FILENAME_MAX (rank_file i k), snprintf FILENAME_MAX (rank_file d k)]
             \<or> i \<in> set [snprintf FILENAME_MAX (rank_file i k), snprintf FILENAME_MAX (rank_file d k)])
            \<longleftrightarrow> (d = rank_file i k \<or> i = rank_file d k)"
    unfolding W(1,2) using rank_file_not_base [of d k] rank_file_not_base [of i k]
    by auto
qed

lemmas command_eval =
  worker_merge_step_def worker_merge_command_def worker_merge_text_def merge_step_def
  merge_command_def merge_text_def snprintf_def FILENAME_MAX_def run_system_def
  sh_ffindex_build_def sh_words_def sh_special_def not_found_def ffindex_build_as_def
  remove_file_def world0_def chunk_file_d_def rank_file_def show_int_def digit_def Let_def
  name_ok_def sh_plain_def cleanup_ok_def

text \<open>
  The base names \<open>out\<close> and \<open>out.index\<close>. A worker of rank 1 merging its chunk \<open>[0, 3)\<close>
  with the merge tool: the chunk shard is there, the merge succeeds and the step
  removes \<open>out.index.1.0.3\<close> and \<open>out.1.0.3\<close>, the input files of its command, and
  not the destination \<open>out.1\<close>, \<open>out.index.1\<close>. The coordinator merging rank 1 on an
  empty file system: the merge fails and nothing is removed.
\<close>

theorem merge_cleanup_example:
  "length (worker_merge_text ''out'' ''out.index'' 1
             \<lparr>split_start = 0, split_end = 3, split_status = EXIT_SUCCESS\<rparr>) < FILENAME_MAX
   \<and> length (merge_text ''out'' ''out.index'' 1) < FILENAME_MAX
   \<and> name_ok ''out'' \<and> name_ok ''out.index''
   \<and> cleanup_ok (sh_ffindex_build not_found)
        (worker_merge_command ''out'' ''out.index'' 1
           \<lparr>split_start = 0, split_end = 3, split_status = EXIT_SUCCESS\<rparr>)
        ''out.index.1.0.3'' ''out.1.0.3''
        (world0\<lparr>files := [''out.1.0.3'' \<mapsto> Blob ''x'', ''out.index.1.0.3'' \<mapsto> Index [(''a'', 0, 1)]]\<rparr>)
        (worker_merge_step (sh_ffindex_build not_found) ''out'' ''out.index'' 1 True
           (world0\<lparr>files := [''out.1.0.3'' \<mapsto> Blob ''x'', ''out.index.1.0.3'' \<mapsto> Index [(''a'', 0, 1)]]\<rparr>)
           \<lparr>split_start = 0, split_end = 3, split_status = EXIT_SUCCESS\<rparr>)
   \<and> removed (worker_merge_step (sh_ffindex_build not_found) ''out'' ''out.index'' 1 True
        (world0\<lparr>files := [''out.1.0.3'' \<mapsto> Blob ''x'', ''out.index.1.0.3'' \<mapsto> Index [(''a'', 0, 1)]]\<rparr>)
        \<lparr>split_start = 0, split_end = 3, split_status = EXIT_SUCCESS\<rparr>)
       = [''out.index.1.0.3'', ''out.1.0.3'']
   \<and> sh_words (worker_merge_command ''out'' ''out.index'' 1
           \<lparr>split_start = 0, split_end = 3, split_status = EXIT_SUCCESS\<rparr>)
       = [''ffindex_build'', ''-as'', ''-d'', ''out.1.0.3'', ''-i'', ''out.index.1.0.3'',
          ''out.1'', ''out.index.1'']
   \<and> cleanup_ok (sh_ffindex_build not_found) (merge_command ''out'' ''out.index'' 1)
        ''out.index.1'' ''out.1'' world0
        (merge_step (sh_ffindex_build not_found) ''out'' ''out.index'' True world0 1)
   \<and> removed (merge_step (sh_ffindex_build not_found) ''out'' ''out.index'' True world0 1) = []
   \<and> sh_words (merge_command ''out'' ''out.index'' 1)
       = [''ffindex_build'', ''-as'', ''-d'', ''out.1'', ''-i'', ''out.index.1'',
          ''out'', ''out.index'']"
proof -
  let ?x = "\<lparr>split_start = 0, split_end = 3, split_status = EXIT_SUCCESS\<rparr>"
  let ?w = "world0\<lparr>files := [''out.1.0.3'' \<mapsto> Blob ''x'', ''out.index.1.0.3'' \<mapsto> Index [(''a'', 0, 1)]]\<rparr>"
  let ?S = "sh_ffindex_build not_found"
  have n: "snprintf FILENAME_MAX (chunk_file_d ''out.index'' 1 (split_start ?x) (split_end ?x))
             = ''out.index.1.0.3''"
    "snprintf FILENAME_MAX (chunk_file_d ''out'' 1 (split_start ?x) (split_end ?x)) = ''out.1.0.3''"
    "snprintf FILENAME_MAX (rank_file ''out.index'' 1) = ''out.index.1''"
    "snprintf FILENAME_MAX (rank_file ''out'' 1) = ''out.1''"
    "rank_file ''out.index'' 1 = ''out.index.1''" "rank_file ''out'' 1 = ''out.1''"
    by (simp_all add: command_eval)
  have h: "length (worker_merge_text ''out'' ''out.index'' 1 ?x) < FILENAME_MAX
             \<and> name_ok ''out'' \<and> name_ok ''out.index''"
    "length (merge_text ''out'' ''out.index'' 1) < FILENAME_MAX
             \<and> name_ok ''out'' \<and> name_ok ''out.index''"
    by (simp_all add: command_eval)
  have a: "removed (worker_merge_step ?S ''out'' ''out.index'' 1 True ?w ?x)
             = [''out.index.1.0.3'', ''out.1.0.3'']"
    by (simp add: command_eval)
  have b: "removed (merge_step ?S ''out'' ''out.index'' True world0 1) = []"
    by (simp add: command_eval)
  note T = merge_cleanup [where system = ?S and d = "''out''" and i = "''out.index''"
      and rank = 1 and x = ?x and k = 1]
  from T [where w = ?w, THEN conjunct1] n
  have c1: "cleanup_ok ?S (worker_merge_command ''out'' ''out.index'' 1 ?x)
        ''out.index.1.0.3'' ''out.1.0.3'' ?w
        (worker_merge_step ?S ''out'' ''out.index'' 1 True ?w ?x)"
    by simp
  from T [where w = world0, THEN conjunct2, THEN conjunct1] n
  have c2: "cleanup_ok ?S (merge_command ''out'' ''out.index'' 1)
        ''out.index.1'' ''out.1'' world0 (merge_step ?S ''out'' ''out.index'' True world0 1)"
    by simp
  from T [where w = world0, THEN conjunct2, THEN conjunct2, THEN conjunct1, rule_format,
      OF h(1), THEN conjunct1] n
  have w1: "sh_words (worker_merge_command ''out'' ''out.index'' 1 ?x)
       = [''ffindex_build'', ''-as'', ''-d'', ''out.1.0.3'', ''-i'', ''out.index.1.0.3'',
          ''out.1'', ''out.index.1'']"
    by simp
  from T [where w = world0, THEN conjunct2, THEN conjunct2, THEN conjunct2, rule_format,
      OF h(2), THEN conjunct1] n
  have w2: "sh_words (merge_command ''out'' ''out.index'' 1)
       = [''ffindex_build'', ''-as'', ''-d'', ''out.1'', ''-i'', ''out.index.1'',
          ''out'', ''out.index'']"
    by simp
  from h a b c1 c2 w1 w2 show ?thesis by simp
qed

text \<open>
  The claim as written, never the destination: with \<open>-d x -i x.1\<close> the command of
  the coordinator for rank 1 is \<^verbatim>\<open>ffindex_build -as -d x.1 -i x.1.1 x x.1\<close>, and
  when it exits with status 0 the step removes \<open>x.1.1\<close> and \<open>x.1\<close>: the second is
  the index file of the destination.
\<close>

theorem merge_removes_destination:
  "sh_words (merge_command ''x'' ''x.1'' 1)
     = [''ffindex_build'', ''-as'', ''-d'', ''x.1'', ''-i'', ''x.1.1'', ''x'', ''x.1'']
   \<and> removed (merge_step (\<lambda>line fs. (0, fs)) ''x'' ''x.1'' True
        (world0\<lparr>files := [''x.1'' \<mapsto> Blob ''ab'', ''x.1.1'' \<mapsto> Index [(''a'', 0, 2)]]\<rparr>) 1)
       = [''x.1.1'', ''x.1'']
   \<and> files (merge_step (\<lambda>line fs. (0, fs)) ''x'' ''x.1'' True
        (world0\<lparr>files := [''x.1'' \<mapsto> Blob ''ab'', ''x.1.1'' \<mapsto> Index [(''a'', 0, 2)]]\<rparr>) 1)
       ''x.1'' = None"
  by (simp add: command_eval)

section \<open>The loops of the pipe runner\<close>

lemma write_loop_tr:
  "write_loop cap tw script written b (tr0 @ tr)
     = map_result (\<lambda>(x, y, t). (x, y, tr0 @ t)) (write_loop cap tw script written b tr)"
proof (induction script arbitrary: written b tr)
  case Nil
  show ?case by simp
next
  case (Cons a script)
  obtain wa ra where a: "a = (wa, ra)" by (cases a)
  show ?case
    unfolding a using Cons.IH by (cases cap) (auto simp: Let_def)
qed

lemma write_loop_norm:
  "write_loop cap tw script written b tr
     = map_result (\<lambda>(x, y, t). (x, y, tr @ t)) (write_loop cap tw script written b [])"
  using write_loop_tr [of cap tw script written b tr "[]"] by simp

lemma read_rest_tr:
  "read_rest script b (tr0 @ tr)
     = map_result (\<lambda>(y, t). (y, tr0 @ t)) (read_rest script b tr)"
proof (induction script arbitrary: b tr)
  case Nil
  show ?case by simp
next
  case (Cons a script)
  show ?case
    using Cons.IH [of "b @ read_data a" "tr @ [SysRead False a]"] by simp
qed

lemma read_rest_norm:
  "read_rest script b tr = map_result (\<lambda>(y, t). (y, tr @ t)) (read_rest script b [])"
  using read_rest_tr [of script b tr "[]"] by simp

lemma write_loop_no_crash: "write_loop False tw script written b tr \<noteq> Crash f"
proof (induction script arbitrary: written b tr)
  case Nil
  show ?case by simp
next
  case (Cons a script)
  obtain wa ra where a: "a = (wa, ra)" by (cases a)
  show ?case unfolding a using Cons.IH by (auto simp: Let_def)
qed

lemma write_loop_no_capture:
  "write_loop False tw script written b tr = Ret (wr, b', tr')
     \<Longrightarrow> b' = b \<and> filter is_read tr' = filter is_read tr"
proof (induction script arbitrary: written tr)
  case Nil
  then show ?case by (simp split: if_splits)
next
  case (Cons a script)
  obtain wa ra where a: "a = (wa, ra)" by (cases a)
  from Cons.prems show ?case
    unfolding a by (auto simp: Let_def split: if_splits dest!: Cons.IH)
qed

lemma received_read: "received_by (SysRead nb a) = read_data a"
  by (cases a) (simp_all add: read_data_def)

lemma received_append: "received (xs @ ys) = received xs @ received ys"
  by (simp add: received_def)

lemma received_no_reads: "filter is_read tr = [] \<Longrightarrow> received tr = []"
proof (induction tr)
  case Nil
  show ?case by (simp add: received_def)
next
  case (Cons c tr)
  then show ?case by (cases c) (simp_all add: received_def split: if_splits)
qed

lemma write_loop_received:
  "write_loop cap tw script written b [] = Ret (wr, b', tr')
     \<Longrightarrow> b' = b @ received tr'"
proof (induction script arbitrary: written b wr b' tr')
  case Nil
  then show ?case by (simp add: received_def split: if_splits)
next
  case (Cons a script)
  obtain wa ra where a: "a = (wa, ra)" by (cases a)
  let ?count = "nat (sint (batch_size (tw - written)))"
  let ?w = "write_ret ?count wa"
  let ?c = "SysWrite (unat written) ?count wa"
  show ?case
  proof (cases "written < tw")
    case False
    with Cons.prems show ?thesis by (simp add: a received_def)
  next
    case lt: True
    show ?thesis
    proof (cases "?w <s 0 \<and> write_errno wa \<noteq> Some EPIPE")
      case True
      with Cons.prems lt show ?thesis by (auto simp: a Let_def received_def)
    next
      case stay: False
      show ?thesis
      proof (cases cap)
        case False
        with Cons.prems lt stay have
          "write_loop cap tw script (written + ?w) b [?c] = Ret (wr, b', tr')"
          by (auto simp: a Let_def)
        then obtain t where
          r: "write_loop cap tw script (written + ?w) b [] = Ret (wr, b', t)"
          and t: "tr' = [?c] @ t"
          by (subst (asm) write_loop_norm)
            (cases "write_loop cap tw script (written + ?w) b []", auto)
        from Cons.IH [OF r] t show ?thesis by (simp add: received_def)
      next
        case True
        with Cons.prems lt stay have fit: "\<not> read_buffer_size < length (b @ read_data ra)"
          by (auto simp: a Let_def split: if_splits)
        with Cons.prems lt stay True have
          "write_loop cap tw script (written + ?w) (b @ read_data ra) [?c, SysRead True ra]
             = Ret (wr, b', tr')"
          by (auto simp: a Let_def)
        then obtain t where
          r: "write_loop cap tw script (written + ?w) (b @ read_data ra) [] = Ret (wr, b', t)"
          and t: "tr' = [?c, SysRead True ra] @ t"
          by (subst (asm) write_loop_norm)
            (cases "write_loop cap tw script (written + ?w) (b @ read_data ra) []", auto)
        from Cons.IH [OF r] t show ?thesis by (simp add: received_def received_read)
      qed
    qed
  qed
qed

lemma read_rest_received:
  "read_rest script b [] = Ret (b', tr')
     \<Longrightarrow> b' = b @ received tr' \<and> filter is_read tr' \<noteq> []"
proof (induction script arbitrary: b b' tr')
  case Nil
  then show ?case by simp
next
  case (Cons a script)
  show ?case
  proof (cases "read_data a = []")
    case True
    with Cons.prems show ?thesis by (auto simp: received_def received_read)
  next
    case False
    with Cons.prems have
      "read_rest script (b @ read_data a) [SysRead False a] = Ret (b', tr')"
      by (auto split: if_splits)
    then obtain t where
      r: "read_rest script (b @ read_data a) [] = Ret (b', t)"
      and t: "tr' = [SysRead False a] @ t"
      by (subst (asm) read_rest_norm)
        (cases "read_rest script (b @ read_data a) []", auto)
    from Cons.IH [OF r] t show ?thesis by (simp add: received_def received_read)
  qed
qed

section \<open>The traffic on the pipes\<close>

lemma pipe_io_no_capture:
  "pipe_io entry False ch T =
     (case write_loop False (e_length entry - 1) (io ch) 0 [] [] of
        Blocked \<Rightarrow> Blocked
      | Crash f \<Rightarrow> Crash f
      | Ret (wr, b, tr) \<Rightarrow> Ret (b, T @ [SysClose stdin_r] @ tr @ [SysClose stdin_w]))"
  unfolding pipe_io_def Let_def
  by (subst write_loop_norm) (simp split: result.splits)

lemma pipe_io_capture:
  "pipe_io entry True ch T =
     (case write_loop True (e_length entry - 1) (io ch) 0 [] [] of
        Blocked \<Rightarrow> Blocked
      | Crash f \<Rightarrow> Crash f
      | Ret (wr, b, tr) \<Rightarrow>
         (case read_rest (drain ch) b [] of
            Blocked \<Rightarrow> Blocked
          | Crash f \<Rightarrow> Crash f
          | Ret (b', tr2) \<Rightarrow>
              Ret (b', T @ [SysClose stdin_r, SysClose stdout_w, SysNonblock]
                         @ tr @ [SysClose stdin_w, SysBlock] @ tr2 @ [SysClose stdout_r])))"
proof (cases "write_loop True (e_length entry - 1) (io ch) 0 [] []")
  case Blocked
  then have "write_loop True (e_length entry - 1) (io ch) 0 [] T' = Blocked" for T'
    by (subst write_loop_norm) simp
  with Blocked show ?thesis by (simp add: pipe_io_def)
next
  case (Crash f)
  then have "write_loop True (e_length entry - 1) (io ch) 0 [] T' = Crash f" for T'
    by (subst write_loop_norm) simp
  with Crash show ?thesis by (simp add: pipe_io_def)
next
  case (Ret x)
  obtain wr b tr where x: "x = (wr, b, tr)" by (cases x)
  from Ret x have wl:
    "write_loop True (e_length entry - 1) (io ch) 0 [] T' = Ret (wr, b, T' @ tr)"
    for T'
    by (subst write_loop_norm) simp
  show ?thesis
  proof (cases "read_rest (drain ch) b []")
    case Blocked
    then have "read_rest (drain ch) b T' = Blocked" for T'
      by (subst read_rest_norm) simp
    with Blocked Ret x show ?thesis by (simp add: pipe_io_def wl)
  next
    case (Crash f)
    then have "read_rest (drain ch) b T' = Crash f" for T'
      by (subst read_rest_norm) simp
    with Crash Ret x show ?thesis by (simp add: pipe_io_def wl)
  next
    case rr: (Ret y)
    obtain b2 tr2 where y: "y = (b2, tr2)" by (cases y)
    from rr y have r: "read_rest (drain ch) b T' = Ret (b2, T' @ tr2)" for T'
      by (subst read_rest_norm) simp
    from rr y Ret x show ?thesis by (simp add: pipe_io_def wl r)
  qed
qed

lemma pipe_io_norm:
  "pipe_io entry cap ch T = map_result (\<lambda>(b, t). (b, T @ t)) (pipe_io entry cap ch [])"
proof (cases cap)
  case False
  then show ?thesis
    by (simp add: pipe_io_no_capture [of entry ch T] pipe_io_no_capture [of entry ch "[]"]
        split: result.splits)
next
  case True
  then show ?thesis
    by (simp add: pipe_io_capture [of entry ch T] pipe_io_capture [of entry ch "[]"]
        split: result.splits)
qed

lemma pipe_io_received:
  assumes "pipe_io entry cap ch [] = Ret (b, tr)"
  shows "b = received tr \<and> (filter is_read tr \<noteq> [] \<longleftrightarrow> cap)"
proof (cases cap)
  case False
  with assms obtain wr b1 t where
    wl: "write_loop False (e_length entry - 1) (io ch) 0 [] [] = Ret (wr, b1, t)"
    and b: "b = b1" and tr: "tr = [SysClose stdin_r] @ t @ [SysClose stdin_w]"
    by (auto simp: pipe_io_no_capture split: result.splits)
  from write_loop_no_capture [OF wl] write_loop_received [OF wl] b tr False
  show ?thesis by (simp add: received_def)
next
  case True
  with assms obtain wr b1 t b2 t2 where
    wl: "write_loop True (e_length entry - 1) (io ch) 0 [] [] = Ret (wr, b1, t)"
    and rr: "read_rest (drain ch) b1 [] = Ret (b2, t2)"
    and b: "b = b2"
    and tr: "tr = [SysClose stdin_r, SysClose stdout_w, SysNonblock] @ t
                    @ [SysClose stdin_w, SysBlock] @ t2 @ [SysClose stdout_r]"
    by (auto simp: pipe_io_capture split: result.splits)
  from write_loop_received [OF wl] read_rest_received [OF rr] b tr True
  show ?thesis by (simp add: received_def)
qed

section \<open>The parent branch with empty accumulators\<close>

lemma parent_branch_io:
  "parent_branch entry d i ch off w =
     (case pipe_io entry (d \<noteq> None) ch [] of
        Blocked \<Rightarrow> Blocked
      | Crash f \<Rightarrow> Crash f
      | Ret (b, tr) \<Rightarrow>
          if d \<noteq> None then
            (case ffindex_insert_memory (files w) d i off b (e_name entry) of
               Inl f \<Rightarrow> Crash f
             | Inr (fs', off') \<Rightarrow>
                 Ret (EXIT_SUCCESS, off',
                      wait_and_report entry (wait ch) (w\<lparr>files := fs', calls := calls w @ tr\<rparr>)))
          else Ret (EXIT_SUCCESS, off,
                    wait_and_report entry (wait ch) (w\<lparr>calls := calls w @ tr\<rparr>)))"
  unfolding parent_branch_def Let_def
  by (subst pipe_io_norm) (simp split: result.splits)

lemma parent_branch_no_capture:
  "parent_branch entry None i ch off w =
     (case write_loop False (e_length entry - 1) (io ch) 0 [] [] of
        Blocked \<Rightarrow> Blocked
      | Crash f \<Rightarrow> Crash f
      | Ret (wr, b, tr) \<Rightarrow>
          Ret (EXIT_SUCCESS, off,
               wait_and_report entry (wait ch)
                 (w\<lparr>calls := calls w @ [SysClose stdin_r] @ tr @ [SysClose stdin_w]\<rparr>)))"
  by (simp add: parent_branch_io pipe_io_no_capture split: result.splits)

lemma stdout_wait_and_report:
  "stdout_lines (wait_and_report entry st w) = stdout_lines w @ report entry st"
  by (simp add: wait_and_report_def report_def Let_def split: wstatus.splits)

lemma frame_wait_and_report:
  "files (wait_and_report entry st w) = files w"
  "removed (wait_and_report entry st w) = removed w"
  "commands (wait_and_report entry st w) = commands w"
  "worker_splits_head (wait_and_report entry st w) = worker_splits_head w"
  "calls (wait_and_report entry st w) = calls w @ [SysWaitpid]"
  by (simp_all add: wait_and_report_def Let_def split: wstatus.splits)

section \<open>What one invocation does\<close>

lemma insert_memory_ok:
  "\<exists>fs' off'. ffindex_insert_memory fs (Some dn) (Some ixn) off bytes nm = Inr (fs', off')"
  by (simp add: ffindex_insert_memory_def Let_def)

lemma runner_io:
  assumes "pipe_stdin ch = None" and "d \<noteq> None \<longrightarrow> pipe_stdout ch = None"
    and "fork ch = None"
  shows "ffindex_apply_by_entry entry d i ch off w = parent_branch entry d i ch off w"
  using assms by (auto simp: ffindex_apply_by_entry_def)

lemma runner_processed:
  assumes pin: "pipe_stdin ch = None"
    and pout: "d \<noteq> None \<longrightarrow> pipe_stdout ch = None"
    and frk: "fork ch = None"
    and suff: "io_completes entry (d \<noteq> None) ch"
    and ix: "d \<noteq> None \<longrightarrow> i \<noteq> None"
  shows "\<exists>off' w'. ffindex_apply_by_entry entry d i ch off w = Ret (EXIT_SUCCESS, off', w')
           \<and> stdout_lines w' = stdout_lines w @ report entry (wait ch)
           \<and> removed w' = removed w \<and> commands w' = commands w
           \<and> worker_splits_head w' = worker_splits_head w
           \<and> (d = None \<longrightarrow> files w' = files w \<and> off' = off \<and> reads_of w' = reads_of w)
           \<and> (d \<noteq> None \<longrightarrow> length (reads_of w) < length (reads_of w'))"
proof -
  from suff obtain b tr where io: "pipe_io entry (d \<noteq> None) ch [] = Ret (b, tr)"
    by (cases "pipe_io entry (d \<noteq> None) ch []") (auto simp: io_completes_def)
  note rc = pipe_io_received [OF io]
  show ?thesis
  proof (cases d)
    case None
    with rc have "filter is_read tr = []" by simp
    with None io runner_io [OF pin pout frk, of entry i off w] show ?thesis
      by (simp add: parent_branch_io stdout_wait_and_report frame_wait_and_report reads_of_def)
  next
    case (Some dn)
    with ix obtain ixn where i: "i = Some ixn" by auto
    from rc Some have "0 < length (filter is_read tr)" by simp
    moreover obtain fs' off' where
      "ffindex_insert_memory (files w) (Some dn) (Some ixn) off b (e_name entry)
         = Inr (fs', off')"
      using insert_memory_ok by blast
    ultimately show ?thesis
      using Some i io runner_io [OF pin pout frk, of entry i off w]
      by (simp add: parent_branch_io stdout_wait_and_report frame_wait_and_report reads_of_def)
  qed
qed

lemma entry_runs_no_capture:
  "entry_runs idx child_of False k \<longleftrightarrow> entry_processed idx child_of None i k"
  by (cases "write_loop False (e_length (idx ! k) - 1) (io (child_of k)) 0 [] []")
    (auto simp: entry_runs_def entry_processed_def answers_suffice_def io_completes_def
      pipe_io_no_capture write_loop_no_crash)

section \<open>Claims about the progress lines\<close>

lemma entry_processed_runs:
  assumes "entry_processed idx child_of d i k"
  shows "\<exists>off' w'. ffindex_apply_by_entry (idx ! k) d i (child_of k) off w
                      = Ret (EXIT_SUCCESS, off', w')
           \<and> stdout_lines w' = stdout_lines w @ report (idx ! k) (wait (child_of k))
           \<and> removed w' = removed w \<and> commands w' = commands w
           \<and> worker_splits_head w' = worker_splits_head w
           \<and> (d = None \<longrightarrow> files w' = files w \<and> off' = off \<and> reads_of w' = reads_of w)
           \<and> (d \<noteq> None \<longrightarrow> length (reads_of w) < length (reads_of w'))"
  using assms unfolding entry_processed_def by (intro runner_processed) simp_all

text \<open>
  C6 (as amended). For every processed entry the runner returns \<open>EXIT_SUCCESS\<close>
  whatever the child's exit status, so the loop of the chunk goes on with the next
  entry; and it prints the line \<open>name, offset, length, exit status\<close> if the child
  exited, and no line if the child was killed by a signal. An entry is processed
  when it is in the index, the pipes and the child are created, the traffic on the
  pipes runs to its end (no call hangs and, when capturing, the child's output fits
  \<open>read_buffer\<close>), and with the data stream the index stream is open too.
\<close>

theorem child_status_is_only_reported:
  assumes "entry_processed idx child_of d i k"
  shows "\<exists>off' w'. ffindex_apply_by_entry (idx ! k) d i (child_of k) off w
                      = Ret (EXIT_SUCCESS, off', w')
           \<and> stdout_lines w' = stdout_lines w
                 @ (case wait (child_of k) of
                      Exited code \<Rightarrow> [progress_line (idx ! k) code]
                    | Signaled sig \<Rightarrow> [])
           \<and> payload_loop idx child_of d i (k # rest) off w
               = payload_loop idx child_of d i rest off' w'"
proof -
  from entry_processed_runs [OF assms, of off w] obtain off' w' where
    r: "ffindex_apply_by_entry (idx ! k) d i (child_of k) off w = Ret (EXIT_SUCCESS, off', w')"
    and l: "stdout_lines w' = stdout_lines w @ report (idx ! k) (wait (child_of k))"
    by blast
  from assms have "ffindex_get_entry_by_index idx k = Some (idx ! k)"
    by (simp add: entry_processed_def ffindex_get_entry_by_index_def)
  with r have "payload_loop idx child_of d i (k # rest) off w
                 = payload_loop idx child_of d i rest off' w'"
    by simp
  with r l show ?thesis by (auto simp: report_def)
qed

lemmas runner_eval =
  entry_runs_def answers_suffice_def entry_processed_def io_completes_def pipe_io_def
  read_buffer_size_def batch_size_def PIPE_BUF_def write_ret_def write_errno_def
  word_sless_alt Let_def ffindex_apply_by_entry_def parent_branch_def wait_and_report_def
  progress_line_def show_int_def digit_def read_data_def world0_def ffindex_insert_memory_def
  blob_of_def lines_of_def ffindex_get_entry_by_index_def report_def reads_of_def

text \<open>
  An entry \<open>a\<close> of stored length 3 whose child takes the two payload bytes, writes
  \<open>o\<close> and exits with status 1, captured into the shard \<open>o.d\<close>, \<open>o.i\<close>: the entry is
  processed, the runner returns \<open>EXIT_SUCCESS\<close> and prints the line \<open>a, 0, 3, 1\<close>.
\<close>

theorem child_status_is_only_reported_example:
  "entry_processed [\<lparr>e_offset = 0, e_length = 3, e_name = ''a''\<rparr>]
     (\<lambda>i. \<lparr>pipe_stdin = None, pipe_stdout = None, fork = None,
            io = [(WOk 4096, RFail EAGAIN)], drain = [RData ''o'', REof], wait = Exited 1\<rparr>)
     (Some ''o.d'') (Some ''o.i'') 0
   \<and> (\<exists>off' w'.
        ffindex_apply_by_entry \<lparr>e_offset = 0, e_length = 3, e_name = ''a''\<rparr>
          (Some ''o.d'') (Some ''o.i'')
          \<lparr>pipe_stdin = None, pipe_stdout = None, fork = None,
           io = [(WOk 4096, RFail EAGAIN)], drain = [RData ''o'', REof], wait = Exited 1\<rparr>
          0 world0
          = Ret (EXIT_SUCCESS, off', w')
        \<and> stdout_lines w'
            = [[CHR ''a'', CHR 0x09, CHR ''0'', CHR 0x09, CHR ''3'', CHR 0x09, CHR ''1'', CHR 0x0A]]
        \<and> payload_loop [\<lparr>e_offset = 0, e_length = 3, e_name = ''a''\<rparr>]
             (\<lambda>i. \<lparr>pipe_stdin = None, pipe_stdout = None, fork = None,
                    io = [(WOk 4096, RFail EAGAIN)], drain = [RData ''o'', REof],
                    wait = Exited 1\<rparr>)
             (Some ''o.d'') (Some ''o.i'') [0] 0 world0
            = Ret (EXIT_SUCCESS, w'))"
proof -
  have h: "entry_processed [\<lparr>e_offset = 0, e_length = 3, e_name = ''a''\<rparr>]
     (\<lambda>i. \<lparr>pipe_stdin = None, pipe_stdout = None, fork = None,
            io = [(WOk 4096, RFail EAGAIN)], drain = [RData ''o'', REof], wait = Exited 1\<rparr>)
     (Some ''o.d'') (Some ''o.i'') 0"
    by (simp add: runner_eval)
  from child_status_is_only_reported [OF h, of 0 world0 "[]"]
  have "\<exists>off' w'.
        ffindex_apply_by_entry \<lparr>e_offset = 0, e_length = 3, e_name = ''a''\<rparr>
          (Some ''o.d'') (Some ''o.i'')
          \<lparr>pipe_stdin = None, pipe_stdout = None, fork = None,
           io = [(WOk 4096, RFail EAGAIN)], drain = [RData ''o'', REof], wait = Exited 1\<rparr>
          0 world0
          = Ret (EXIT_SUCCESS, off', w')
        \<and> stdout_lines w'
            = [[CHR ''a'', CHR 0x09, CHR ''0'', CHR 0x09, CHR ''3'', CHR 0x09, CHR ''1'', CHR 0x0A]]
        \<and> payload_loop [\<lparr>e_offset = 0, e_length = 3, e_name = ''a''\<rparr>]
             (\<lambda>i. \<lparr>pipe_stdin = None, pipe_stdout = None, fork = None,
                    io = [(WOk 4096, RFail EAGAIN)], drain = [RData ''o'', REof],
                    wait = Exited 1\<rparr>)
             (Some ''o.d'') (Some ''o.i'') [0] 0 world0
            = Ret (EXIT_SUCCESS, w')"
    by (simp add: world0_def progress_line_def show_int_def digit_def)
  with h show ?thesis by simp
qed

text \<open>
  The claim as written, one line for every processed entry: an entry \<open>a\<close> whose
  child takes its input and is killed by signal 9, capture disabled. The entry is
  processed, the runner returns \<open>EXIT_SUCCESS\<close>, and nothing is printed.
\<close>

theorem killed_child_prints_no_line:
  "entry_processed [\<lparr>e_offset = 0, e_length = 3, e_name = ''a''\<rparr>]
     (\<lambda>i. \<lparr>pipe_stdin = None, pipe_stdout = None, fork = None,
            io = [(WOk 4096, REof)], drain = [], wait = Signaled 9\<rparr>) None None 0
   \<and> (case ffindex_apply_by_entry \<lparr>e_offset = 0, e_length = 3, e_name = ''a''\<rparr> None None
           \<lparr>pipe_stdin = None, pipe_stdout = None, fork = None,
            io = [(WOk 4096, REof)], drain = [], wait = Signaled 9\<rparr> 0 world0 of
      Ret (st, off', w') \<Rightarrow> st = EXIT_SUCCESS \<and> stdout_lines w' = []
    | Blocked \<Rightarrow> False
    | Crash f \<Rightarrow> False)"
  by (simp add: runner_eval)

section \<open>The loop over a chunk\<close>

lemma runner_frame_no_capture:
  assumes "ffindex_apply_by_entry entry None i ch off w = Ret (st, off', w')"
  shows "files w' = files w \<and> removed w' = removed w \<and> commands w' = commands w
         \<and> worker_splits_head w' = worker_splits_head w \<and> reads_of w' = reads_of w
         \<and> off' = off"
proof (cases "pipe_stdin ch = None \<and> fork ch = None")
  case False
  with assms show ?thesis
    by (auto simp: ffindex_apply_by_entry_def split: option.splits)
next
  case True
  with assms have pb: "parent_branch entry None i ch off w = Ret (st, off', w')"
    by (simp add: ffindex_apply_by_entry_def)
  then obtain x where wl: "write_loop False (e_length entry - 1) (io ch) 0 [] [] = Ret x"
    by (cases "write_loop False (e_length entry - 1) (io ch) 0 [] []")
      (simp_all add: parent_branch_no_capture)
  obtain wr b tr where x: "x = (wr, b, tr)" by (cases x)
  from wl x have nr: "filter is_read tr = []"
    using write_loop_no_capture [of "e_length entry - 1" "io ch" 0 "[]" "[]" wr b tr] by simp
  from pb wl x nr show ?thesis
    by (auto simp: parent_branch_no_capture frame_wait_and_report reads_of_def)
qed

lemma payload_loop_frame_no_capture:
  "payload_loop idx child_of None i ks off w = Ret (st, w')
     \<Longrightarrow> files w' = files w \<and> removed w' = removed w \<and> commands w' = commands w
         \<and> worker_splits_head w' = worker_splits_head w \<and> reads_of w' = reads_of w"
proof (induction ks arbitrary: off w)
  case Nil
  then show ?case by simp
next
  case (Cons k ks)
  from Cons.prems obtain entry where e: "ffindex_get_entry_by_index idx k = Some entry"
    by (cases "ffindex_get_entry_by_index idx k") simp_all
  from Cons.prems e obtain st1 off1 w1 where
    r: "ffindex_apply_by_entry entry None i (child_of k) off w = Ret (st1, off1, w1)"
    by (cases "ffindex_apply_by_entry entry None i (child_of k) off w") auto
  note f = runner_frame_no_capture [OF r]
  show ?case
  proof (cases "st1 = EXIT_SUCCESS")
    case False
    with Cons.prems e r f show ?thesis by simp
  next
    case True
    with Cons.prems e r have "payload_loop idx child_of None i ks off1 w1 = Ret (st, w')"
      by simp
    from Cons.IH [OF this] f show ?thesis by simp
  qed
qed

lemma payload_loop_runs:
  assumes "\<forall>k \<in> set ks. entry_processed idx child_of d i k"
  shows "\<exists>w'. payload_loop idx child_of d i ks off w = Ret (EXIT_SUCCESS, w')
           \<and> stdout_lines w' = stdout_lines w
                 @ concat (map (\<lambda>k. report (idx ! k) (wait (child_of k))) ks)"
  using assms
proof (induction ks arbitrary: off w)
  case Nil
  show ?case by simp
next
  case (Cons k ks)
  then have k: "entry_processed idx child_of d i k" by simp
  from entry_processed_runs [OF k, of off w] obtain off1 w1 where
    r: "ffindex_apply_by_entry (idx ! k) d i (child_of k) off w = Ret (EXIT_SUCCESS, off1, w1)"
    and l: "stdout_lines w1 = stdout_lines w @ report (idx ! k) (wait (child_of k))"
    by blast
  from k have e: "ffindex_get_entry_by_index idx k = Some (idx ! k)"
    by (simp add: entry_processed_def ffindex_get_entry_by_index_def)
  from Cons.prems have "\<forall>k \<in> set ks. entry_processed idx child_of d i k" by simp
  from Cons.IH [OF this, of off1 w1] obtain w' where
    "payload_loop idx child_of d i ks off1 w1 = Ret (EXIT_SUCCESS, w')"
    "stdout_lines w' = stdout_lines w1
       @ concat (map (\<lambda>k. report (idx ! k) (wait (child_of k))) ks)"
    by blast
  with r l e show ?case by simp
qed

lemma fopen_w_None: "fopen_w None fresh w = w"
  by (simp add: fopen_w_def)

lemma payload_no_data:
  assumes nd: "a_data_filename_out ad = None"
    and ok: "\<not> fopen_fails_on ff (map_option (\<lambda>i. snprintf FILENAME_MAX (chunk_file_zu i rank s e)) (a_index_filename_out ad))"
    and r: "ffindex_apply_worker_payload rank ff child_of s e ad w = Ret (st, w')"
  shows "files w' = files (fopen_w (map_option (\<lambda>i. snprintf FILENAME_MAX (chunk_file_zu i rank s e))
                                     (a_index_filename_out ad)) (Index []) w)
         \<and> removed w' = removed w \<and> commands w' = commands w \<and> reads_of w' = reads_of w
         \<and> worker_splits_head w'
             = \<lparr>split_start = ucast s, split_end = ucast e, split_status = st\<rparr>
                 # worker_splits_head w"
proof -
  let ?ixf = "map_option (\<lambda>i. snprintf FILENAME_MAX (chunk_file_zu i rank s e)) (a_index_filename_out ad)"
  let ?w2 = "fopen_w ?ixf (Index []) w"
  from r nd ok obtain w3 where
    l: "payload_loop (a_index ad) child_of None ?ixf [unat s ..< unat e] 0 ?w2 = Ret (st, w3)"
    and w': "w' = w3\<lparr>worker_splits_head :=
                 \<lparr>split_start = ucast s, split_end = ucast e, split_status = st\<rparr>
                   # worker_splits_head w3\<rparr>"
    by (auto simp: ffindex_apply_worker_payload_def Let_def fopen_fails_on_def fopen_w_def
        split: result.splits)
  have f2: "removed ?w2 = removed w" "commands ?w2 = commands w" "reads_of ?w2 = reads_of w"
    "worker_splits_head ?w2 = worker_splits_head w"
    by (simp_all add: fopen_w_def reads_of_def split: option.splits)
  from payload_loop_frame_no_capture [OF l] w' f2 show ?thesis
    by (simp add: reads_of_def)
qed

lemma payload_runs_no_data:
  assumes nd: "a_data_filename_out ad = None"
    and ok: "\<not> fopen_fails_on ff (map_option (\<lambda>i. snprintf FILENAME_MAX (chunk_file_zu i rank s e)) (a_index_filename_out ad))"
    and runs: "\<forall>k \<in> set [unat s ..< unat e]. entry_runs (a_index ad) child_of False k"
  shows "\<exists>w'. ffindex_apply_worker_payload rank ff child_of s e ad w = Ret (EXIT_SUCCESS, w')
           \<and> stdout_lines w' = stdout_lines w
                 @ concat (map (\<lambda>k. report (a_index ad ! k) (wait (child_of k)))
                             [unat s ..< unat e])"
proof -
  let ?ixf = "map_option (\<lambda>i. snprintf FILENAME_MAX (chunk_file_zu i rank s e)) (a_index_filename_out ad)"
  let ?w2 = "fopen_w ?ixf (Index []) w"
  have s2: "stdout_lines ?w2 = stdout_lines w"
    by (simp add: fopen_w_def split: option.splits)
  from runs have "\<forall>k \<in> set [unat s ..< unat e].
      entry_processed (a_index ad) child_of None ?ixf k"
    by (simp add: entry_runs_no_capture [symmetric])
  from payload_loop_runs [OF this, of 0 ?w2] obtain w3 where
    "payload_loop (a_index ad) child_of None ?ixf [unat s ..< unat e] 0 ?w2
       = Ret (EXIT_SUCCESS, w3)"
    "stdout_lines w3 = stdout_lines ?w2
       @ concat (map (\<lambda>k. report (a_index ad ! k) (wait (child_of k))) [unat s ..< unat e])"
    by auto
  with nd ok s2 show ?thesis
    by (simp add: ffindex_apply_worker_payload_def Let_def fopen_fails_on_def fopen_w_None)
qed

section \<open>Claims about runs without a data output file\<close>

text \<open>
  C9 (as amended). With neither \<open>-d\<close> nor \<open>-i\<close>: a chunk that returns leaves every
  file as it was, removes nothing and runs no merge command, and both merge
  functions return at once, changing nothing. If every entry of the chunk is
  processed, the chunk returns \<open>EXIT_SUCCESS\<close> and has printed, in index order, one
  line for each entry whose child exited, and none for a child killed by a signal.
\<close>

theorem capture_disabled_frame:
  assumes "a_data_filename_out ad = None" and "a_index_filename_out ad = None"
  shows "(\<forall>st w'. ffindex_apply_worker_payload rank ff child_of s e ad w = Ret (st, w') \<longrightarrow>
            files w' = files w \<and> removed w' = removed w \<and> commands w' = commands w
            \<and> ffindex_worker_merge_splits system (a_data_filename_out ad)
                 (a_index_filename_out ad) rank True w' = w'
            \<and> ffindex_merge_splits system (a_data_filename_out ad)
                 (a_index_filename_out ad) splits True w' = w')
         \<and> ((\<forall>k \<in> set [unat s ..< unat e]. entry_runs (a_index ad) child_of False k) \<longrightarrow>
              (\<exists>w'. ffindex_apply_worker_payload rank ff child_of s e ad w
                       = Ret (EXIT_SUCCESS, w')
                 \<and> stdout_lines w' = stdout_lines w
                      @ concat (map (\<lambda>k. case wait (child_of k) of
                                            Exited code \<Rightarrow> [progress_line (a_index ad ! k) code]
                                          | Signaled sig \<Rightarrow> [])
                                  [unat s ..< unat e])))"
proof -
  have ok: "\<not> fopen_fails_on ff (map_option (\<lambda>i. snprintf FILENAME_MAX (chunk_file_zu i rank s e))
                                   (a_index_filename_out ad))"
    using assms(2) by (simp add: fopen_fails_on_def)
  have a: "files w' = files w \<and> removed w' = removed w \<and> commands w' = commands w
           \<and> ffindex_worker_merge_splits system (a_data_filename_out ad)
                (a_index_filename_out ad) rank True w' = w'
           \<and> ffindex_merge_splits system (a_data_filename_out ad)
                (a_index_filename_out ad) splits True w' = w'"
    if "ffindex_apply_worker_payload rank ff child_of s e ad w = Ret (st, w')" for st w'
    using payload_no_data [OF assms(1) ok that] assms
    by (simp add: fopen_w_def ffindex_worker_merge_splits_def ffindex_merge_splits_def)
  have b: "\<exists>w'. ffindex_apply_worker_payload rank ff child_of s e ad w = Ret (EXIT_SUCCESS, w')
                 \<and> stdout_lines w' = stdout_lines w
                      @ concat (map (\<lambda>k. case wait (child_of k) of
                                            Exited code \<Rightarrow> [progress_line (a_index ad ! k) code]
                                          | Signaled sig \<Rightarrow> [])
                                  [unat s ..< unat e])"
    if "\<forall>k \<in> set [unat s ..< unat e]. entry_runs (a_index ad) child_of False k"
    using payload_runs_no_data [OF assms(1) ok that, of w]
    by (simp add: report_def [abs_def])
  from a b show ?thesis by blast
qed

lemmas worker_eval =
  runner_eval ffindex_apply_worker_payload_def fopen_fails_on_def fopen_w_def
  ex_index_def ex_data_def ex_child_def ex_apply_data_def chunk_file_zu_def
  snprintf_def FILENAME_MAX_def

text \<open>
  Rank 1 runs the chunk \<open>[0, 2)\<close> of the example archive without output files; the
  children exit with status 0 and 2. No file appears and two lines are printed.
\<close>

theorem capture_disabled_frame_example:
  "a_data_filename_out (ex_apply_data None None) = None
   \<and> a_index_filename_out (ex_apply_data None None) = None
   \<and> entry_runs (a_index (ex_apply_data None None))
         (\<lambda>k. ex_child (Exited (2 * k)) ''o'') False 0
   \<and> entry_runs (a_index (ex_apply_data None None))
         (\<lambda>k. ex_child (Exited (2 * k)) ''o'') False 1
   \<and> (\<exists>w'. ffindex_apply_worker_payload 1 (\<lambda>p. False) (\<lambda>k. ex_child (Exited (2 * k)) ''o'')
               0 2 (ex_apply_data None None) world0 = Ret (EXIT_SUCCESS, w')
          \<and> files w' = Map.empty
          \<and> ffindex_worker_merge_splits (sh_ffindex_build not_found) None None 1 True w' = w'
          \<and> ffindex_merge_splits (sh_ffindex_build not_found) None None 3 True w' = w'
          \<and> stdout_lines w'
              = [[CHR ''a'', CHR 0x09, CHR ''0'', CHR 0x09, CHR ''3'', CHR 0x09, CHR ''0'', CHR 0x0A],
                 [CHR ''b'', CHR 0x09, CHR ''3'', CHR 0x09, CHR ''2'', CHR 0x09, CHR ''2'', CHR 0x0A]])"
proof -
  have h1: "a_data_filename_out (ex_apply_data None None) = None"
    and h2: "a_index_filename_out (ex_apply_data None None) = None"
    by (simp_all add: ex_apply_data_def)
  have h3: "\<forall>k \<in> set [unat (0 :: size_t) ..< unat (2 :: size_t)].
         entry_runs (a_index (ex_apply_data None None))
           (\<lambda>k. ex_child (Exited (2 * k)) ''o'') False k"
    by (simp add: worker_eval upt_rec [of 0] upt_rec [of "Suc 0"])
  from capture_disabled_frame [OF h1 h2, of 1 "\<lambda>p. False"
      "\<lambda>k. ex_child (Exited (2 * k)) ''o''" 0 2 world0 "sh_ffindex_build not_found" 3] h3
  obtain w' where
    r: "ffindex_apply_worker_payload 1 (\<lambda>p. False) (\<lambda>k. ex_child (Exited (2 * k)) ''o'')
          0 2 (ex_apply_data None None) world0 = Ret (EXIT_SUCCESS, w')"
    and l: "stdout_lines w' = stdout_lines world0
         @ concat (map (\<lambda>k. case wait (ex_child (Exited (2 * k)) ''o'') of
                               Exited code \<Rightarrow> [progress_line (a_index (ex_apply_data None None) ! k) code]
                             | Signaled sig \<Rightarrow> [])
                     [unat (0 :: size_t) ..< unat (2 :: size_t)])"
    and f: "files w' = files world0"
      "ffindex_worker_merge_splits (sh_ffindex_build not_found) (a_data_filename_out (ex_apply_data None None))
         (a_index_filename_out (ex_apply_data None None)) 1 True w' = w'"
      "ffindex_merge_splits (sh_ffindex_build not_found) (a_data_filename_out (ex_apply_data None None))
         (a_index_filename_out (ex_apply_data None None)) 3 True w' = w'"
    by blast
  from l have "stdout_lines w'
              = [[CHR ''a'', CHR 0x09, CHR ''0'', CHR 0x09, CHR ''3'', CHR 0x09, CHR ''0'', CHR 0x0A],
                 [CHR ''b'', CHR 0x09, CHR ''3'', CHR 0x09, CHR ''2'', CHR 0x09, CHR ''2'', CHR 0x0A]]"
    by (simp add: worker_eval upt_rec [of 0] upt_rec [of "Suc 0"])
  moreover from h3 have
    "entry_runs (a_index (ex_apply_data None None)) (\<lambda>k. ex_child (Exited (2 * k)) ''o'') False 0"
    "entry_runs (a_index (ex_apply_data None None)) (\<lambda>k. ex_child (Exited (2 * k)) ''o'') False 1"
    by (simp_all add: upt_rec [of 0] upt_rec [of "Suc 0"])
  ultimately show ?thesis using r f h1 h2 by (simp add: world0_def)
qed

text \<open>
  The claim as written, one line per processed entry: rank 1 runs the chunk \<open>[0, 1)\<close>
  without output files, the child is killed by signal 9; the entry is processed, the
  chunk returns \<open>EXIT_SUCCESS\<close>, and the progress stream is empty.
\<close>

theorem capture_disabled_killed_child:
  "(case ffindex_apply_worker_payload 1 (\<lambda>p. False) (\<lambda>k. ex_child (Signaled 9) ''o'')
           0 1 (ex_apply_data None None) world0 of
      Ret (st, w') \<Rightarrow> st = EXIT_SUCCESS \<and> stdout_lines w' = [] \<and> files w' = Map.empty
    | Blocked \<Rightarrow> False
    | Crash f \<Rightarrow> False)"
  by (simp add: worker_eval upt_rec [of 0])

text \<open>
  C10. Capture follows the data output file only. For an entry whose pipes and
  child are created and whose traffic on the pipes runs to its end, whatever
  \<open>index_file_out\<close> is: the child's standard output is read exactly when
  \<open>data_file_out\<close> is open; the bytes stored are the bytes the kernel delivered to
  the reads; with \<open>data_file_out\<close> open these bytes are handed to the shard writer
  (which faults when \<open>index_file_out\<close> is not open), and without it nothing is stored
  and no file changes. With \<open>-i\<close> alone, a chunk whose index shard file can be opened
  creates that file empty, and when the chunk returns the file is still empty and
  nothing was read from any child; both merge functions return at once, so the file
  is left behind. If every entry of the chunk is processed, the chunk returns.
\<close>

theorem capture_follows_data_file:
  assumes "a_data_filename_out ad = None" and "a_index_filename_out ad = Some ix"
    and "\<not> ff (snprintf FILENAME_MAX (chunk_file_zu ix rank s e))"
  shows "(\<forall>st w'. ffindex_apply_worker_payload rank ff child_of s e ad w = Ret (st, w') \<longrightarrow>
            files w' = (files w)(snprintf FILENAME_MAX (chunk_file_zu ix rank s e) \<mapsto> Index [])
            \<and> reads_of w' = reads_of w
            \<and> ffindex_worker_merge_splits system (a_data_filename_out ad)
                 (a_index_filename_out ad) rank True w' = w'
            \<and> ffindex_merge_splits system (a_data_filename_out ad)
                 (a_index_filename_out ad) splits True w' = w')
         \<and> ((\<forall>k \<in> set [unat s ..< unat e]. entry_runs (a_index ad) child_of False k) \<longrightarrow>
              (\<exists>w'. ffindex_apply_worker_payload rank ff child_of s e ad w
                       = Ret (EXIT_SUCCESS, w')))
         \<and> (\<forall>entry d i ch off w0.
               pipe_stdin ch = None \<and> (d \<noteq> None \<longrightarrow> pipe_stdout ch = None)
               \<and> fork ch = None \<and> io_completes entry (d \<noteq> None) ch \<longrightarrow>
               (\<exists>b tr. pipe_io entry (d \<noteq> None) ch [] = Ret (b, tr)
                  \<and> b = received tr
                  \<and> (filter is_read tr \<noteq> [] \<longleftrightarrow> d \<noteq> None)
                  \<and> (d = None \<longrightarrow> b = [])
                  \<and> ffindex_apply_by_entry entry d i ch off w0
                      = (if d \<noteq> None then
                           (case ffindex_insert_memory (files w0) d i off b (e_name entry) of
                              Inl f \<Rightarrow> Crash f
                            | Inr (fs', off') \<Rightarrow>
                                Ret (EXIT_SUCCESS, off',
                                     wait_and_report entry (wait ch)
                                       (w0\<lparr>files := fs', calls := calls w0 @ tr\<rparr>)))
                         else Ret (EXIT_SUCCESS, off,
                                   wait_and_report entry (wait ch)
                                     (w0\<lparr>calls := calls w0 @ tr\<rparr>)))))"
proof -
  have ok: "\<not> fopen_fails_on ff (map_option (\<lambda>i. snprintf FILENAME_MAX (chunk_file_zu i rank s e))
                                   (a_index_filename_out ad))"
    using assms(2,3) by (simp add: fopen_fails_on_def)
  have a: "files w' = (files w)(snprintf FILENAME_MAX (chunk_file_zu ix rank s e) \<mapsto> Index [])
           \<and> reads_of w' = reads_of w
           \<and> ffindex_worker_merge_splits system (a_data_filename_out ad)
                (a_index_filename_out ad) rank True w' = w'
           \<and> ffindex_merge_splits system (a_data_filename_out ad)
                (a_index_filename_out ad) splits True w' = w'"
    if "ffindex_apply_worker_payload rank ff child_of s e ad w = Ret (st, w')" for st w'
    using payload_no_data [OF assms(1) ok that] assms
    by (simp add: fopen_w_def ffindex_worker_merge_splits_def ffindex_merge_splits_def)
  have b: "\<exists>w'. ffindex_apply_worker_payload rank ff child_of s e ad w = Ret (EXIT_SUCCESS, w')"
    if "\<forall>k \<in> set [unat s ..< unat e]. entry_runs (a_index ad) child_of False k"
    using payload_runs_no_data [OF assms(1) ok that, of w] by blast
  have c: "\<exists>b tr. pipe_io entry (d \<noteq> None) ch [] = Ret (b, tr)
              \<and> b = received tr
              \<and> (filter is_read tr \<noteq> [] \<longleftrightarrow> d \<noteq> None)
              \<and> (d = None \<longrightarrow> b = [])
              \<and> ffindex_apply_by_entry entry d i ch off w0
                  = (if d \<noteq> None then
                       (case ffindex_insert_memory (files w0) d i off b (e_name entry) of
                          Inl f \<Rightarrow> Crash f
                        | Inr (fs', off') \<Rightarrow>
                            Ret (EXIT_SUCCESS, off',
                                 wait_and_report entry (wait ch)
                                   (w0\<lparr>files := fs', calls := calls w0 @ tr\<rparr>)))
                     else Ret (EXIT_SUCCESS, off,
                               wait_and_report entry (wait ch)
                                 (w0\<lparr>calls := calls w0 @ tr\<rparr>)))"
    if "pipe_stdin ch = None \<and> (d \<noteq> None \<longrightarrow> pipe_stdout ch = None)
        \<and> fork ch = None \<and> io_completes entry (d \<noteq> None) ch"
    for entry d i ch off w0
  proof -
    from that have p: "pipe_stdin ch = None" "d \<noteq> None \<longrightarrow> pipe_stdout ch = None"
      "fork ch = None" and cm: "io_completes entry (d \<noteq> None) ch"
      by simp_all
    from cm obtain b tr where io: "pipe_io entry (d \<noteq> None) ch [] = Ret (b, tr)"
      by (cases "pipe_io entry (d \<noteq> None) ch []") (auto simp: io_completes_def)
    note rc = pipe_io_received [OF io]
    have e: "d = None \<longrightarrow> b = []"
    proof
      assume "d = None"
      with rc have "b = received tr" "filter is_read tr = []" by simp_all
      then show "b = []" by (simp add: received_no_reads)
    qed
    have "ffindex_apply_by_entry entry d i ch off w0
            = (if d \<noteq> None then
                 (case ffindex_insert_memory (files w0) d i off b (e_name entry) of
                    Inl f \<Rightarrow> Crash f
                  | Inr (fs', off') \<Rightarrow>
                      Ret (EXIT_SUCCESS, off',
                           wait_and_report entry (wait ch)
                             (w0\<lparr>files := fs', calls := calls w0 @ tr\<rparr>)))
               else Ret (EXIT_SUCCESS, off,
                         wait_and_report entry (wait ch) (w0\<lparr>calls := calls w0 @ tr\<rparr>)))"
      by (simp only: runner_io [OF p] parent_branch_io io result.case prod.case)
    with io rc e show ?thesis by (intro exI conjI) simp_all
  qed
  show ?thesis
  proof (rule conjI [OF _ conjI])
    show "\<forall>st w'. ffindex_apply_worker_payload rank ff child_of s e ad w = Ret (st, w') \<longrightarrow>
            files w' = (files w)(snprintf FILENAME_MAX (chunk_file_zu ix rank s e) \<mapsto> Index [])
            \<and> reads_of w' = reads_of w
            \<and> ffindex_worker_merge_splits system (a_data_filename_out ad)
                 (a_index_filename_out ad) rank True w' = w'
            \<and> ffindex_merge_splits system (a_data_filename_out ad)
                 (a_index_filename_out ad) splits True w' = w'"
      by (intro allI impI) (rule a)
    show "(\<forall>k \<in> set [unat s ..< unat e]. entry_runs (a_index ad) child_of False k) \<longrightarrow>
              (\<exists>w'. ffindex_apply_worker_payload rank ff child_of s e ad w
                       = Ret (EXIT_SUCCESS, w'))"
      by (intro impI) (rule b)
    show "\<forall>entry d i ch off w0.
               pipe_stdin ch = None \<and> (d \<noteq> None \<longrightarrow> pipe_stdout ch = None)
               \<and> fork ch = None \<and> io_completes entry (d \<noteq> None) ch \<longrightarrow>
               (\<exists>b tr. pipe_io entry (d \<noteq> None) ch [] = Ret (b, tr)
                  \<and> b = received tr
                  \<and> (filter is_read tr \<noteq> [] \<longleftrightarrow> d \<noteq> None)
                  \<and> (d = None \<longrightarrow> b = [])
                  \<and> ffindex_apply_by_entry entry d i ch off w0
                      = (if d \<noteq> None then
                           (case ffindex_insert_memory (files w0) d i off b (e_name entry) of
                              Inl f \<Rightarrow> Crash f
                            | Inr (fs', off') \<Rightarrow>
                                Ret (EXIT_SUCCESS, off',
                                     wait_and_report entry (wait ch)
                                       (w0\<lparr>files := fs', calls := calls w0 @ tr\<rparr>)))
                         else Ret (EXIT_SUCCESS, off,
                                   wait_and_report entry (wait ch)
                                     (w0\<lparr>calls := calls w0 @ tr\<rparr>))))"
      by (intro allI impI) (rule c)
  qed
qed

text \<open>
  Rank 1 runs the chunk \<open>[0, 2)\<close> of the example archive with \<open>-i o.i\<close> alone: the
  file \<open>o.i.1.0.2\<close> is created and stays empty, and nothing is read. And the entry
  \<open>a\<close> with \<open>-d o.d\<close> alone: the child's output \<open>o\<close> is read and stored, and the shard
  writer faults on the missing index stream.
\<close>

theorem capture_follows_data_file_example:
  "a_data_filename_out (ex_apply_data None (Some ''o.i'')) = None
   \<and> a_index_filename_out (ex_apply_data None (Some ''o.i'')) = Some ''o.i''
   \<and> \<not> (\<lambda>p. False) (snprintf FILENAME_MAX (chunk_file_zu ''o.i'' 1 0 2))
   \<and> entry_runs (a_index (ex_apply_data None (Some ''o.i'')))
         (\<lambda>k. ex_child (Exited 0) ''o'') False 0
   \<and> entry_runs (a_index (ex_apply_data None (Some ''o.i'')))
         (\<lambda>k. ex_child (Exited 0) ''o'') False 1
   \<and> (\<exists>w'. ffindex_apply_worker_payload 1 (\<lambda>p. False) (\<lambda>k. ex_child (Exited 0) ''o'')
               0 2 (ex_apply_data None (Some ''o.i'')) world0 = Ret (EXIT_SUCCESS, w')
          \<and> files w' = [''o.i.1.0.2'' \<mapsto> Index []]
          \<and> reads_of w' = []
          \<and> files (ffindex_merge_splits (sh_ffindex_build not_found) None (Some ''o.i'') 3 True
                (ffindex_worker_merge_splits (sh_ffindex_build not_found) None (Some ''o.i'') 1
                   True w'))
              = [''o.i.1.0.2'' \<mapsto> Index []])
   \<and> io_completes (ex_index ! 0) True (ex_child (Exited 0) ''o'')
   \<and> (\<exists>tr. pipe_io (ex_index ! 0) True (ex_child (Exited 0) ''o'') [] = Ret (''o'', tr)
          \<and> received tr = ''o''
          \<and> filter is_read tr \<noteq> []
          \<and> ffindex_apply_by_entry (ex_index ! 0) (Some ''o.d'') None (ex_child (Exited 0) ''o'')
               0 world0 = Crash SIGSEGV)"
proof -
  let ?ad = "ex_apply_data None (Some ''o.i'')"
  let ?S = "sh_ffindex_build not_found"
  have h1: "a_data_filename_out ?ad = None"
    and h2: "a_index_filename_out ?ad = Some ''o.i''"
    by (simp_all add: ex_apply_data_def)
  have h3: "\<not> (\<lambda>p. False) (snprintf FILENAME_MAX (chunk_file_zu ''o.i'' 1 0 2))" by simp
  have h4: "\<forall>k \<in> set [unat (0 :: size_t) ..< unat (2 :: size_t)].
         entry_runs (a_index ?ad) (\<lambda>k. ex_child (Exited 0) ''o'') False k"
    by (simp add: worker_eval upt_rec [of 0] upt_rec [of "Suc 0"])
  have n: "snprintf FILENAME_MAX (chunk_file_zu ''o.i'' 1 0 2) = ''o.i.1.0.2''"
    by (simp add: chunk_file_zu_def show_int_def digit_def snprintf_def FILENAME_MAX_def)
  have h3': "\<not> False" by simp
  note T = capture_follows_data_file [where ad = ?ad and ix = "''o.i''" and ff = "\<lambda>p. False"
      and rank = 1 and s = 0 and e = 2 and child_of = "\<lambda>k. ex_child (Exited 0) ''o''"
      and w = world0 and system = ?S and splits = 3, OF h1 h2 h3']
  from T [THEN conjunct2, THEN conjunct1] h4 obtain w' where
    r: "ffindex_apply_worker_payload 1 (\<lambda>p. False) (\<lambda>k. ex_child (Exited 0) ''o'')
          0 2 ?ad world0 = Ret (EXIT_SUCCESS, w')"
    by (elim impE exE) simp_all
  from T [THEN conjunct1, rule_format, OF r]
  have f: "files w' = (files world0)(snprintf FILENAME_MAX (chunk_file_zu ''o.i'' 1 0 2) \<mapsto> Index [])"
      "reads_of w' = reads_of world0"
      "ffindex_worker_merge_splits ?S (a_data_filename_out ?ad)
         (a_index_filename_out ?ad) 1 True w' = w'"
      "ffindex_merge_splits ?S (a_data_filename_out ?ad)
         (a_index_filename_out ?ad) 3 True w' = w'"
    by simp_all
  from h4 have runs:
    "entry_runs (a_index ?ad) (\<lambda>k. ex_child (Exited 0) ''o'') False 0"
    "entry_runs (a_index ?ad) (\<lambda>k. ex_child (Exited 0) ''o'') False 1"
    by (simp_all add: upt_rec [of 0] upt_rec [of "Suc 0"])
  from r f h1 h2 n have first:
    "\<exists>w'. ffindex_apply_worker_payload 1 (\<lambda>p. False) (\<lambda>k. ex_child (Exited 0) ''o'')
               0 2 ?ad world0 = Ret (EXIT_SUCCESS, w')
          \<and> files w' = [''o.i.1.0.2'' \<mapsto> Index []]
          \<and> reads_of w' = []
          \<and> files (ffindex_merge_splits ?S None (Some ''o.i'') 3 True
                (ffindex_worker_merge_splits ?S None (Some ''o.i'') 1 True w'))
              = [''o.i.1.0.2'' \<mapsto> Index []]"
    by (simp add: world0_def reads_of_def)
  have cm: "io_completes (ex_index ! 0) True (ex_child (Exited 0) ''o'')"
    by (simp add: worker_eval)
  have pre: "pipe_stdin (ex_child (Exited 0) ''o'') = None
      \<and> (Some ''o.d'' \<noteq> None \<longrightarrow> pipe_stdout (ex_child (Exited 0) ''o'') = None)
      \<and> fork (ex_child (Exited 0) ''o'') = None
      \<and> io_completes (ex_index ! 0) (Some ''o.d'' \<noteq> None) (ex_child (Exited 0) ''o'')"
    using cm by (simp add: ex_child_def)
  from T [THEN conjunct2, THEN conjunct2, rule_format, OF pre, of None 0 world0]
  obtain b tr where
    io: "pipe_io (ex_index ! 0) True (ex_child (Exited 0) ''o'') [] = Ret (b, tr)"
    and rc: "b = received tr" "filter is_read tr \<noteq> []"
    and run: "ffindex_apply_by_entry (ex_index ! 0) (Some ''o.d'') None
                (ex_child (Exited 0) ''o'') 0 world0
              = (case ffindex_insert_memory (files world0) (Some ''o.d'') None 0 b
                        (e_name (ex_index ! 0)) of
                   Inl f \<Rightarrow> Crash f
                 | Inr (fs', off') \<Rightarrow>
                     Ret (EXIT_SUCCESS, off',
                          wait_and_report (ex_index ! 0) (wait (ex_child (Exited 0) ''o''))
                            (world0\<lparr>files := fs', calls := calls world0 @ tr\<rparr>)))"
    by auto
  from io have b: "b = ''o''" by (simp add: worker_eval)
  from run have crash: "ffindex_apply_by_entry (ex_index ! 0) (Some ''o.d'') None
                (ex_child (Exited 0) ''o'') 0 world0 = Crash SIGSEGV"
    by (simp add: ffindex_insert_memory_def)
  from io rc b crash have second:
    "\<exists>tr. pipe_io (ex_index ! 0) True (ex_child (Exited 0) ''o'') [] = Ret (''o'', tr)
          \<and> received tr = ''o''
          \<and> filter is_read tr \<noteq> []
          \<and> ffindex_apply_by_entry (ex_index ! 0) (Some ''o.d'') None (ex_child (Exited 0) ''o'')
               0 world0 = Crash SIGSEGV"
    by auto
  from h1 h2 runs first cm second show ?thesis by simp
qed

section \<open>The write loop after a broken pipe\<close>

lemma epipe_step:
  assumes "written < tw"
  shows "write_loop False tw ((WFail EPIPE, ra) # script) written b tr
           = write_loop False tw script (written - 1) b
               (tr @ [SysWrite (unat written) (nat (sint (batch_size (tw - written))))
                        (WFail EPIPE)])"
  using assms by (simp add: write_ret_def write_errno_def word_sless_alt Let_def)

lemma epipe_retries:
  assumes "unat written = n" and "written < tw"
  shows "\<exists>tr'. write_loop False tw (replicate (Suc n) (WFail EPIPE, ra)) written b tr
                  = Ret (- 1, b, tr @ tr')
           \<and> length tr' = Suc n \<and> (\<forall>c \<in> set tr'. failed_write c)"
  using assms
proof (induction n arbitrary: written tr)
  case 0
  then have w0: "written = 0" by (simp add: unat_eq_zero)
  have "\<not> (- 1 :: ssize_t) < tw" by (simp add: not_less)
  with 0 w0 show ?case by (simp add: epipe_step del: write_loop.simps(2))
next
  case (Suc n)
  from Suc.prems(1) have nz: "written \<noteq> 0" by (auto simp: unat_eq_zero [symmetric])
  then have u: "unat (written - 1) = n" using Suc.prems(1) by (simp add: unat_minus_one)
  have "unat (written - 1) < unat written" using u Suc.prems(1) by simp
  then have "written - 1 < written" by (simp add: word_less_nat_alt)
  with Suc.prems(2) have lt: "written - 1 < tw" by simp
  from Suc.IH [OF u lt, of "tr @ [SysWrite (unat written)
        (nat (sint (batch_size (tw - written)))) (WFail EPIPE)]"]
  obtain tr' where
    r: "write_loop False tw (replicate (Suc n) (WFail EPIPE, ra)) (written - 1) b
          (tr @ [SysWrite (unat written) (nat (sint (batch_size (tw - written)))) (WFail EPIPE)])
        = Ret (- 1, b, (tr @ [SysWrite (unat written)
            (nat (sint (batch_size (tw - written)))) (WFail EPIPE)]) @ tr')"
    and l: "length tr' = Suc n" and f: "\<forall>c \<in> set tr'. failed_write c"
    by blast
  have "write_loop False tw (replicate (Suc (Suc n)) (WFail EPIPE, ra)) written b tr
          = Ret (- 1, b, tr @ (SysWrite (unat written)
              (nat (sint (batch_size (tw - written)))) (WFail EPIPE) # tr'))"
  proof -
    have e: "replicate (Suc (Suc n)) (WFail EPIPE, ra)
               = (WFail EPIPE, ra) # replicate (Suc n) (WFail EPIPE, ra)"
      by simp
    show ?thesis
      by (simp only: e epipe_step [OF Suc.prems(2)] r) simp
  qed
  moreover have "length (SysWrite (unat written)
              (nat (sint (batch_size (tw - written)))) (WFail EPIPE) # tr') = Suc (Suc n)"
    using l by simp
  moreover have "\<forall>c \<in> set (SysWrite (unat written)
              (nat (sint (batch_size (tw - written)))) (WFail EPIPE) # tr'). failed_write c"
    using f by simp
  ultimately show ?case by blast
qed

text \<open>
  C4. An entry with a payload of 4097 bytes whose child takes the first 4096 bytes and
  then closes its input: the second \<open>write\<close> fails with \<open>EPIPE\<close>. The loop does not
  stop there: \<open>written += w\<close> adds -1, and \<open>write\<close> is called again and again, 4097
  failing calls in all, until \<open>written\<close> is -1 and the unsigned loop test ends the
  loop. Only then is the pipe closed and the child waited for; the runner returns
  \<open>EXIT_SUCCESS\<close>.
\<close>

theorem broken_pipe_keeps_writing:
  "(case ffindex_apply_by_entry \<lparr>e_offset = 0, e_length = 4098, e_name = ''a''\<rparr> None None
           \<lparr>pipe_stdin = None, pipe_stdout = None, fork = None,
            io = (WOk 4096, REof) # replicate 4097 (WFail EPIPE, REof),
            drain = [], wait = Exited 0\<rparr> 0 world0 of
      Ret (st, off', w') \<Rightarrow>
        st = EXIT_SUCCESS \<and> length (filter failed_write (calls w')) = 4097
        \<and> last (calls w') = SysWaitpid
    | Blocked \<Rightarrow> False
    | Crash f \<Rightarrow> False)"
proof -
  let ?S = "replicate (Suc 4096) (WFail EPIPE, REof)"
  have s1: "write_loop False 4097 ((WOk 4096, REof) # S) 0 [] []
              = write_loop False 4097 S 4096 [] [SysWrite 0 4096 (WOk 4096)]" for S
    by (simp add: batch_size_def PIPE_BUF_def write_ret_def write_errno_def word_sless_alt)
  have u: "unat (4096 :: ssize_t) = 4096" by simp
  have lt: "(4096 :: ssize_t) < 4097" by simp
  from epipe_retries [OF u lt, of REof "[]" "[SysWrite 0 4096 (WOk 4096)]"]
  obtain tr' where
    r: "write_loop False 4097 ?S 4096 [] [SysWrite 0 4096 (WOk 4096)]
          = Ret (- 1, [], [SysWrite 0 4096 (WOk 4096)] @ tr')"
    and l: "length tr' = Suc 4096" and f: "\<forall>c \<in> set tr'. failed_write c"
    by blast
  from f have ff: "filter failed_write tr' = tr'" by simp
  have n: "(4097 :: nat) = Suc 4096" by simp
  have e: "(4098 :: size_t) - 1 = 4097" by simp
  have wl: "write_loop False (e_length \<lparr>e_offset = 0, e_length = 4098, e_name = ''a''\<rparr> - 1)
              ((WOk 4096, REof) # replicate 4097 (WFail EPIPE, REof)) 0 [] []
            = Ret (- 1, [], [SysWrite 0 4096 (WOk 4096)] @ tr')"
    by (simp only: ffindex_entry.simps e n s1 r)
  show ?thesis
    by (simp only: ffindex_apply_by_entry_def parent_branch_no_capture child.simps wl Let_def)
      (simp add: frame_wait_and_report world0_def ff l)
qed


section \<open>The write loop with a child that takes its input\<close>

lemma unat_rest: "written < tw \<Longrightarrow> unat (tw - written) = unat tw - unat written"
  for written tw :: size_t
  by (simp add: unat_sub word_less_nat_alt word_le_nat_alt)

lemma batch_count: "nat (sint (batch_size rest)) = min (unat rest) 4096"
proof (cases "rest < PIPE_BUF")
  case True
  then have lt: "unat rest < 4096" by (simp add: PIPE_BUF_def word_less_nat_alt)
  then have "unat rest < 2 ^ 31" by simp
  from ucast_small [OF this] True lt show ?thesis by (simp add: batch_size_def)
next
  case False
  then have "4096 \<le> unat rest" by (simp add: PIPE_BUF_def word_less_nat_alt not_less)
  with False show ?thesis by (simp add: batch_size_def PIPE_BUF_def)
qed

lemma small_not_negative: "m \<le> 4096 \<Longrightarrow> \<not> (of_nat m :: ssize_t) <s 0"
proof -
  assume m: "m \<le> 4096"
  then have "sint (of_nat m :: ssize_t) = int m"
    by (simp add: signed_of_nat signed_take_bit_int_eq_self)
  then show ?thesis by (simp add: word_sless_alt)
qed

lemma unat_advance:
  "unat written + m \<le> unat tw \<Longrightarrow> unat (written + of_nat m) = unat written + m"
  for written tw :: size_t
proof -
  assume le: "unat written + m \<le> unat tw"
  have "unat tw < 2 ^ 64" using unsigned_less [of tw, where 'a=nat] by simp
  with le have lt: "unat written + m < 2 ^ 64" by simp
  then have "m < 2 ^ LENGTH(64)" by simp
  then have "m mod 2 ^ LENGTH(64) = m" by (rule mod_less)
  then have m: "unat (of_nat m :: size_t) = m" by (simp only: unat_of_nat)
  with lt show ?thesis by (simp add: unat_add_lem [THEN iffD1])
qed


lemma coop_step:
  assumes "written < tw" and "0 < k"
  shows "write_loop cap tw ((WOk k, ra) # script) written b tr
           = (if cap \<and> read_buffer_size < length (b @ read_data ra) then Crash BUFFER_OVERRUN
              else write_loop cap tw script
                     (written + of_nat (min k (min (unat (tw - written)) 4096)))
                     (if cap then b @ read_data ra else b)
                     (tr @ SysWrite (unat written) (min (unat (tw - written)) 4096) (WOk k)
                             # (if cap then [SysRead True ra] else [])))"
proof -
  have "\<not> (of_nat (min k (min (unat (tw - written)) 4096)) :: ssize_t) <s 0"
    by (rule small_not_negative) simp
  with assms(1) show ?thesis
    by (simp add: batch_count write_ret_def write_errno_def Let_def)
qed

lemma sent_append: "sent fd (xs @ ys) = sent fd xs @ sent fd ys"
  by (simp add: sent_def)



lemma write_loop_cooperative:
  assumes "\<forall>a \<in> set script. \<exists>k. fst a = WOk k \<and> 0 < k"
    and "unat written \<le> unat tw"
    and "unat tw - unat written \<le> length script"
  shows "\<exists>L. (\<forall>c \<in> set L. write_count c \<le> 4096)
           \<and> sent filedata L = take (unat tw - unat written) (drop (unat written) filedata)
           \<and> (cap \<longrightarrow> reads_follow_writes L)
           \<and> (\<not> cap \<longrightarrow> received L = [])
           \<and> length (received L) \<le> length (concat (map (\<lambda>a. read_data (snd a)) script))
           \<and> (\<forall>b. length b \<le> read_buffer_size \<longrightarrow>
                  write_loop cap tw script written b []
                    = (if cap \<and> read_buffer_size < length (b @ received L)
                       then Crash BUFFER_OVERRUN else Ret (tw, b @ received L, L)))"
  using assms
proof (induction script arbitrary: written)
  case Nil
  then have "unat written = unat tw" by simp
  then have e: "written = tw" by (simp add: word_unat_eq_iff)
  show ?case unfolding e by (intro exI [of _ "[]"]) (simp add: sent_def received_def)
next
  case (Cons a script)
  show ?case
  proof (cases "written < tw")
    case False
    with Cons.prems(2) have "unat written = unat tw"
      by (simp add: word_less_nat_alt)
    then have e: "written = tw" by (simp add: word_unat_eq_iff)
    obtain wa ra where a: "a = (wa, ra)" by (cases a)
    show ?thesis unfolding a e by (intro exI [of _ "[]"]) (simp add: sent_def received_def)
  next
    case True
    from Cons.prems(1) obtain k ra where a: "a = (WOk k, ra)" and k: "0 < k"
      by (cases a) auto
    define r where "r = unat tw - unat written"
    define count where "count = min (unat (tw - written)) 4096"
    define m where "m = min k count"
    define w' where "w' = written + (of_nat m :: size_t)"
    define R1 where "R1 = (if cap then read_data ra else [])"
    define T1 where
      "T1 = SysWrite (unat written) count (WOk k) # (if cap then [SysRead True ra] else [])"
    from True have ur: "unat (tw - written) = r" unfolding r_def by (rule unat_rest)
    from True have rpos: "0 < r" by (simp add: r_def word_less_nat_alt)
    from k rpos ur have m1: "1 \<le> m" by (simp add: m_def count_def)
    have mr: "m \<le> r" using ur by (simp add: m_def count_def)
    have c4: "count \<le> 4096" by (simp add: count_def)
    from mr have le: "unat written + m \<le> unat tw" using Cons.prems(2) by (simp add: r_def)
    from unat_advance [OF le] have u': "unat w' = unat written + m" by (simp add: w'_def)
    from Cons.prems(1) have p1: "\<forall>a \<in> set script. \<exists>k. fst a = WOk k \<and> 0 < k" by simp
    from u' le have p2: "unat w' \<le> unat tw" by simp
    from Cons.prems(3) m1 u' have p3: "unat tw - unat w' \<le> length script" by simp
    from Cons.IH [OF p1 p2 p3] obtain L where
      c: "\<forall>c \<in> set L. write_count c \<le> 4096"
      and s: "sent filedata L = take (unat tw - unat w') (drop (unat w') filedata)"
      and f: "cap \<longrightarrow> reads_follow_writes L"
      and n: "\<not> cap \<longrightarrow> received L = []"
      and g: "length (received L) \<le> length (concat (map (\<lambda>a. read_data (snd a)) script))"
      and wl: "\<And>b. length b \<le> read_buffer_size \<Longrightarrow>
               write_loop cap tw script w' b []
                 = (if cap \<and> read_buffer_size < length (b @ received L)
                    then Crash BUFFER_OVERRUN else Ret (tw, b @ received L, L))"
      by blast
    have rT: "received (T1 @ L) = R1 @ received L"
      by (simp add: received_def T1_def R1_def received_read)
    have res: "write_loop cap tw (a # script) written b []
                 = (if cap \<and> read_buffer_size < length (b @ received (T1 @ L))
                    then Crash BUFFER_OVERRUN else Ret (tw, b @ received (T1 @ L), T1 @ L))"
      if lb: "length b \<le> read_buffer_size" for b
    proof -
      have st: "write_loop cap tw (a # script) written b []
              = (if cap \<and> read_buffer_size < length (b @ read_data ra) then Crash BUFFER_OVERRUN
                 else write_loop cap tw script w' (b @ R1) ([] @ T1))"
        unfolding a w'_def m_def count_def T1_def R1_def
        using coop_step [OF True k, of cap ra script b "[]"] by simp
      have nx: "write_loop cap tw script w' (b @ R1) ([] @ T1)
              = (if cap \<and> read_buffer_size < length ((b @ R1) @ received L)
                 then Crash BUFFER_OVERRUN else Ret (tw, (b @ R1) @ received L, T1 @ L))"
        if "length (b @ R1) \<le> read_buffer_size"
        by (subst write_loop_norm) (simp add: wl [OF that])
      show ?thesis
      proof (cases "cap \<and> read_buffer_size < length (b @ read_data ra)")
        case True
        then have "read_buffer_size < length (b @ R1 @ received L)"
          by (simp add: R1_def)
        with True st show ?thesis by (simp add: rT)
      next
        case False
        with lb have lb1: "length (b @ R1) \<le> read_buffer_size" by (auto simp: R1_def)
        from st False have "write_loop cap tw (a # script) written b []
                              = write_loop cap tw script w' (b @ R1) ([] @ T1)"
          by (simp only: if_False)
        also have "\<dots> = (if cap \<and> read_buffer_size < length ((b @ R1) @ received L)
                         then Crash BUFFER_OVERRUN
                         else Ret (tw, (b @ R1) @ received L, T1 @ L))"
          by (rule nx [OF lb1])
        also have "\<dots> = (if cap \<and> read_buffer_size < length (b @ received (T1 @ L))
                         then Crash BUFFER_OVERRUN
                         else Ret (tw, b @ received (T1 @ L), T1 @ L))"
          by (simp only: rT append_assoc)
        finally show ?thesis .
      qed
    qed
    have c': "\<forall>c \<in> set (T1 @ L). write_count c \<le> 4096" using c c4 by (auto simp: T1_def)
    have t1: "sent filedata T1 = take m (drop (unat written) filedata)"
      by (simp add: sent_def m_def T1_def)
    have "sent filedata (T1 @ L)
            = take m (drop (unat written) filedata)
                @ take (unat tw - unat w') (drop (unat w') filedata)"
      by (simp only: sent_append t1 s)
    also have "\<dots> = take (m + (unat tw - unat w')) (drop (unat written) filedata)"
      by (simp only: u' take_add drop_drop add.commute)
    also have "m + (unat tw - unat w') = r" using u' le by (simp add: r_def)
    finally have s': "sent filedata (T1 @ L) = take r (drop (unat written) filedata)" .
    have f': "cap \<longrightarrow> reads_follow_writes (T1 @ L)" using f by (simp add: T1_def)
    have n': "\<not> cap \<longrightarrow> received (T1 @ L) = []" using n by (simp add: rT R1_def)
    have g': "length (received (T1 @ L))
                \<le> length (concat (map (\<lambda>a. read_data (snd a)) (a # script)))"
      using g by (simp add: rT R1_def a)
    from res c' s' [unfolded r_def] f' n' g' show ?thesis by blast
  qed
qed

lemma read_rest_to_eof:
  "\<forall>d \<in> set ds. d \<noteq> [] \<Longrightarrow> length b \<le> read_buffer_size \<Longrightarrow>
     read_rest (map RData ds @ REof # rest) b tr
       = (if read_buffer_size < length (b @ concat ds) then Crash BUFFER_OVERRUN
          else Ret (b @ concat ds, tr @ map (SysRead False) (map RData ds @ [REof])))"
proof (induction ds arbitrary: b tr)
  case Nil
  then show ?case by (simp add: read_data_def)
next
  case (Cons d ds)
  show ?case
  proof (cases "read_buffer_size < length (b @ d)")
    case True
    with Cons.prems show ?thesis by (simp add: read_data_def)
  next
    case False
    then have "length (b @ d) \<le> read_buffer_size" by simp
    with Cons.prems have
      "read_rest (map RData ds @ REof # rest) (b @ d) (tr @ [SysRead False (RData d)])
         = (if read_buffer_size < length ((b @ d) @ concat ds) then Crash BUFFER_OVERRUN
            else Ret ((b @ d) @ concat ds,
                      (tr @ [SysRead False (RData d)])
                        @ map (SysRead False) (map RData ds @ [REof])))"
      by (intro Cons.IH) simp_all
    with False Cons.prems show ?thesis by (simp add: read_data_def)
  qed
qed

text \<open>
  The traffic on the pipes of a child that takes its input (every \<open>write\<close> is
  accepted, at least one byte each time) and whose output ends with end-of-file
  after the chunks \<open>ds\<close>.
\<close>

lemma pipe_io_cooperative:
  assumes len: "1 \<le> unat (e_length entry)"
    and takes: "\<forall>a \<in> set (io ch). \<exists>k. fst a = WOk k \<and> 0 < k"
    and enough: "unat (e_length entry) - 1 \<le> length (io ch)"
    and eof: "drain ch = map RData ds @ REof # rest" "\<forall>d \<in> set ds. d \<noteq> []"
  shows "\<exists>L. (\<forall>c \<in> set L. write_count c \<le> 4096)
           \<and> sent filedata L = take (unat (e_length entry) - 1) filedata
           \<and> (cap \<longrightarrow> reads_follow_writes L)
           \<and> (\<not> cap \<longrightarrow> received L = [])
           \<and> length (received L) \<le> length (concat (map (\<lambda>a. read_data (snd a)) (io ch)))
           \<and> pipe_io entry cap ch []
               = (if cap then
                    (if read_buffer_size < length (received L @ concat ds)
                     then Crash BUFFER_OVERRUN
                     else Ret (received L @ concat ds,
                               [SysClose stdin_r, SysClose stdout_w, SysNonblock] @ L
                                 @ [SysClose stdin_w, SysBlock]
                                 @ map (SysRead False) (map RData ds @ [REof])
                                 @ [SysClose stdout_r]))
                  else Ret ([], [SysClose stdin_r] @ L @ [SysClose stdin_w]))"
proof -
  let ?tw = "e_length entry - 1"
  from len have nz: "e_length entry \<noteq> 0" by (auto simp: unat_eq_zero [symmetric])
  then have utw: "unat ?tw = unat (e_length entry) - 1" by (simp add: unat_minus_one)
  have z: "unat (0 :: ssize_t) \<le> unat ?tw" by simp
  from enough utw have en: "unat ?tw - unat (0 :: ssize_t) \<le> length (io ch)" by simp
  from write_loop_cooperative [OF takes z en, of filedata cap] obtain L where
    c: "\<forall>c \<in> set L. write_count c \<le> 4096"
    and s: "sent filedata L = take (unat ?tw - unat (0 :: ssize_t)) (drop (unat (0 :: ssize_t)) filedata)"
    and f: "cap \<longrightarrow> reads_follow_writes L"
    and n: "\<not> cap \<longrightarrow> received L = []"
    and g: "length (received L) \<le> length (concat (map (\<lambda>a. read_data (snd a)) (io ch)))"
    and wl: "\<And>b. length b \<le> read_buffer_size \<Longrightarrow>
             write_loop cap ?tw (io ch) 0 b []
               = (if cap \<and> read_buffer_size < length (b @ received L)
                  then Crash BUFFER_OVERRUN else Ret (?tw, b @ received L, L))"
    by blast
  from s utw have s': "sent filedata L = take (unat (e_length entry) - 1) filedata" by simp
  have "length ([] :: string) \<le> read_buffer_size" by simp
  note wl0 = wl [OF this]
  have "pipe_io entry cap ch []
          = (if cap then
               (if read_buffer_size < length (received L @ concat ds)
                then Crash BUFFER_OVERRUN
                else Ret (received L @ concat ds,
                          [SysClose stdin_r, SysClose stdout_w, SysNonblock] @ L
                            @ [SysClose stdin_w, SysBlock]
                            @ map (SysRead False) (map RData ds @ [REof])
                            @ [SysClose stdout_r]))
             else Ret ([], [SysClose stdin_r] @ L @ [SysClose stdin_w]))"
  proof (cases cap)
    case False
    with wl0 n show ?thesis by (simp add: pipe_io_no_capture)
  next
    case True
    show ?thesis
    proof (cases "read_buffer_size < length (received L)")
      case over: True
      with True wl0 show ?thesis by (simp add: pipe_io_capture)
    next
      case False
      then have fit: "length (received L) \<le> read_buffer_size" by simp
      from False True wl0 have
        w: "write_loop True ?tw (io ch) 0 [] [] = Ret (?tw, received L, L)"
        by simp
      from read_rest_to_eof [OF eof(2) fit, of rest "[]"] eof(1) have
        "read_rest (drain ch) (received L) []
           = (if read_buffer_size < length (received L @ concat ds) then Crash BUFFER_OVERRUN
              else Ret (received L @ concat ds,
                        map (SysRead False) (map RData ds @ [REof])))"
        by simp
      with True w show ?thesis by (simp add: pipe_io_capture)
    qed
  qed
  with c s' f n g show ?thesis by blast
qed

section \<open>Claims about the algorithm of the pipe runner\<close>

text \<open>
  C2 (as amended). An entry of stored length at least 1 whose pipes and child are
  created, whose child takes its input (every \<open>write\<close> is accepted, at least one byte
  each time) and whose output ends with end-of-file after the chunks \<open>ds\<close>. The
  write loop makes the calls \<open>L\<close>: no \<open>write\<close> asks for more than \<open>PIPE_BUF\<close> bytes, the
  bytes accepted are the first \<open>length - 1\<close> bytes of the entry's data, and when
  capturing every \<open>write\<close> is directly followed by a non-blocking \<open>read\<close>. The child's
  output is what these reads deliver followed by \<open>ds\<close>. If it is no longer than
  \<open>read_buffer\<close> (400 MiB), the runner returns \<open>EXIT_SUCCESS\<close>, its calls are, in this
  order, those of the write loop, the close of the input pipe, the switch to
  blocking mode, the reads up to the one that returns 0 and the close of the output
  pipe, then \<open>waitpid\<close>; and the bytes handed to the shard writer are the whole
  output. If it is longer, a \<open>read\<close> stores beyond \<open>read_buffer\<close>. Without capture
  the runner returns \<open>EXIT_SUCCESS\<close> after the write loop, the close of the input
  pipe and \<open>waitpid\<close>, and no file changes.
\<close>

theorem pipe_runner_algorithm:
  assumes len: "1 \<le> unat (e_length entry)"
    and created: "pipe_stdin ch = None" "pipe_stdout ch = None" "fork ch = None"
    and takes: "\<forall>a \<in> set (io ch). \<exists>k. fst a = WOk k \<and> 0 < k"
    and enough: "unat (e_length entry) - 1 \<le> length (io ch)"
    and eof: "drain ch = map RData ds @ REof # rest" "\<forall>d \<in> set ds. d \<noteq> []"
  shows "(\<exists>L. (\<forall>c \<in> set L. write_count c \<le> unat PIPE_BUF)
            \<and> sent filedata L = take (unat (e_length entry) - 1) filedata
            \<and> reads_follow_writes L
            \<and> (if length (received L @ concat ds) \<le> read_buffer_size
               then \<exists>off' w'.
                      ffindex_apply_by_entry entry (Some dn) (Some ixn) ch off w
                        = Ret (EXIT_SUCCESS, off', w')
                      \<and> calls w' = calls w @ [SysClose stdin_r, SysClose stdout_w, SysNonblock]
                           @ L @ [SysClose stdin_w, SysBlock]
                           @ map (SysRead False) (map RData ds @ [REof])
                           @ [SysClose stdout_r, SysWaitpid]
                      \<and> ffindex_insert_memory (files w) (Some dn) (Some ixn) off
                           (received L @ concat ds) (e_name entry) = Inr (files w', off')
               else ffindex_apply_by_entry entry (Some dn) (Some ixn) ch off w
                      = Crash BUFFER_OVERRUN))
         \<and> (\<exists>L w'.
            ffindex_apply_by_entry entry None ix ch off w = Ret (EXIT_SUCCESS, off, w')
            \<and> calls w' = calls w @ [SysClose stdin_r] @ L @ [SysClose stdin_w, SysWaitpid]
            \<and> (\<forall>c \<in> set L. write_count c \<le> unat PIPE_BUF)
            \<and> sent filedata L = take (unat (e_length entry) - 1) filedata
            \<and> received L = [] \<and> files w' = files w)"
proof -
  have pb: "unat PIPE_BUF = 4096" by (simp add: PIPE_BUF_def)
  have cap: "\<exists>L. (\<forall>c \<in> set L. write_count c \<le> unat PIPE_BUF)
            \<and> sent filedata L = take (unat (e_length entry) - 1) filedata
            \<and> reads_follow_writes L
            \<and> (if length (received L @ concat ds) \<le> read_buffer_size
               then \<exists>off' w'.
                      ffindex_apply_by_entry entry (Some dn) (Some ixn) ch off w
                        = Ret (EXIT_SUCCESS, off', w')
                      \<and> calls w' = calls w @ [SysClose stdin_r, SysClose stdout_w, SysNonblock]
                           @ L @ [SysClose stdin_w, SysBlock]
                           @ map (SysRead False) (map RData ds @ [REof])
                           @ [SysClose stdout_r, SysWaitpid]
                      \<and> ffindex_insert_memory (files w) (Some dn) (Some ixn) off
                           (received L @ concat ds) (e_name entry) = Inr (files w', off')
               else ffindex_apply_by_entry entry (Some dn) (Some ixn) ch off w
                      = Crash BUFFER_OVERRUN)"
  proof -
    from pipe_io_cooperative [OF len takes enough eof, of filedata True] obtain L where
      c: "\<forall>c \<in> set L. write_count c \<le> 4096"
      and s: "sent filedata L = take (unat (e_length entry) - 1) filedata"
      and f: "reads_follow_writes L"
      and io: "pipe_io entry True ch []
                 = (if read_buffer_size < length (received L @ concat ds)
                    then Crash BUFFER_OVERRUN
                    else Ret (received L @ concat ds,
                              [SysClose stdin_r, SysClose stdout_w, SysNonblock] @ L
                                @ [SysClose stdin_w, SysBlock]
                                @ map (SysRead False) (map RData ds @ [REof])
                                @ [SysClose stdout_r]))"
      by auto
    have run: "ffindex_apply_by_entry entry (Some dn) (Some ixn) ch off w
                 = parent_branch entry (Some dn) (Some ixn) ch off w"
      using created by (intro runner_io) simp_all
    have "if length (received L @ concat ds) \<le> read_buffer_size
          then \<exists>off' w'.
                 ffindex_apply_by_entry entry (Some dn) (Some ixn) ch off w
                   = Ret (EXIT_SUCCESS, off', w')
                 \<and> calls w' = calls w @ [SysClose stdin_r, SysClose stdout_w, SysNonblock]
                      @ L @ [SysClose stdin_w, SysBlock]
                      @ map (SysRead False) (map RData ds @ [REof])
                      @ [SysClose stdout_r, SysWaitpid]
                 \<and> ffindex_insert_memory (files w) (Some dn) (Some ixn) off
                      (received L @ concat ds) (e_name entry) = Inr (files w', off')
          else ffindex_apply_by_entry entry (Some dn) (Some ixn) ch off w
                 = Crash BUFFER_OVERRUN"
    proof (cases "length (received L @ concat ds) \<le> read_buffer_size")
      case False
      with io run show ?thesis by (simp add: parent_branch_io)
    next
      case True
      obtain fs' off' where
        ins: "ffindex_insert_memory (files w) (Some dn) (Some ixn) off
                (received L @ concat ds) (e_name entry) = Inr (fs', off')"
        using insert_memory_ok by blast
      from True io have io': "pipe_io entry True ch []
                 = Ret (received L @ concat ds,
                        [SysClose stdin_r, SysClose stdout_w, SysNonblock] @ L
                          @ [SysClose stdin_w, SysBlock]
                          @ map (SysRead False) (map RData ds @ [REof])
                          @ [SysClose stdout_r])"
        by simp
      have "ffindex_apply_by_entry entry (Some dn) (Some ixn) ch off w
              = Ret (EXIT_SUCCESS, off',
                  wait_and_report entry (wait ch)
                    (w\<lparr>files := fs',
                       calls := calls w @ [SysClose stdin_r, SysClose stdout_w, SysNonblock]
                         @ L @ [SysClose stdin_w, SysBlock]
                         @ map (SysRead False) (map RData ds @ [REof]) @ [SysClose stdout_r]\<rparr>))"
        using run by (simp add: parent_branch_io io' ins)
      with True ins show ?thesis by (simp add: frame_wait_and_report)
    qed
    with c s f pb show ?thesis by (intro exI [of _ L] conjI) simp_all
  qed
  have nocap: "\<exists>L w'.
            ffindex_apply_by_entry entry None ix ch off w = Ret (EXIT_SUCCESS, off, w')
            \<and> calls w' = calls w @ [SysClose stdin_r] @ L @ [SysClose stdin_w, SysWaitpid]
            \<and> (\<forall>c \<in> set L. write_count c \<le> unat PIPE_BUF)
            \<and> sent filedata L = take (unat (e_length entry) - 1) filedata
            \<and> received L = [] \<and> files w' = files w"
  proof -
    from pipe_io_cooperative [OF len takes enough eof, of filedata False] obtain L where
      c: "\<forall>c \<in> set L. write_count c \<le> 4096"
      and s: "sent filedata L = take (unat (e_length entry) - 1) filedata"
      and n: "received L = []"
      and io: "pipe_io entry False ch [] = Ret ([], [SysClose stdin_r] @ L @ [SysClose stdin_w])"
      by auto
    have run: "ffindex_apply_by_entry entry None ix ch off w
                 = parent_branch entry None ix ch off w"
      using created by (intro runner_io) simp_all
    have "ffindex_apply_by_entry entry None ix ch off w
            = Ret (EXIT_SUCCESS, off,
                wait_and_report entry (wait ch)
                  (w\<lparr>calls := calls w @ [SysClose stdin_r] @ L @ [SysClose stdin_w]\<rparr>))"
      using run by (simp add: parent_branch_io io)
    with c s n pb show ?thesis by (simp add: frame_wait_and_report)
  qed
  from cap nocap show ?thesis by (rule conjI)
qed

text \<open>
  The entry \<open>a\<close> of the example archive (payload \<open>hi\<close>) with the slow child, capturing
  into the shard \<open>o.d.1.0.2\<close>, \<open>o.i.1.0.2\<close>: two writes of one accepted byte each, a
  non-blocking read after each, then the blocking reads up to end-of-file. The child
  has received \<open>hi\<close> and the shard holds its output \<open>ok\<close>.
\<close>

theorem pipe_runner_algorithm_example:
  "(\<exists>L. (\<forall>c \<in> set L. write_count c \<le> unat PIPE_BUF)
      \<and> sent ex_data L = take (unat (e_length \<lparr>e_offset = 0, e_length = 3, e_name = ''a''\<rparr>) - 1) ex_data
      \<and> reads_follow_writes L
      \<and> length (received L @ concat [''k'']) \<le> read_buffer_size
      \<and> (\<exists>off' w'.
          ffindex_apply_by_entry \<lparr>e_offset = 0, e_length = 3, e_name = ''a''\<rparr>
            (Some ''o.d.1.0.2'') (Some ''o.i.1.0.2'') ex_slow_child 0 world0
            = Ret (EXIT_SUCCESS, off', w')
          \<and> calls w' = calls world0 @ [SysClose stdin_r, SysClose stdout_w, SysNonblock] @ L
               @ [SysClose stdin_w, SysBlock] @ map (SysRead False) (map RData [''k''] @ [REof])
               @ [SysClose stdout_r, SysWaitpid]
          \<and> ffindex_insert_memory (files world0) (Some ''o.d.1.0.2'') (Some ''o.i.1.0.2'') 0
               (received L @ concat [''k'']) ''a'' = Inr (files w', off')))
   \<and> (case ffindex_apply_by_entry \<lparr>e_offset = 0, e_length = 3, e_name = ''a''\<rparr>
             (Some ''o.d.1.0.2'') (Some ''o.i.1.0.2'') ex_slow_child 0 world0 of
         Ret (st, off', w') \<Rightarrow>
           st = EXIT_SUCCESS \<and> off' = 3
           \<and> calls w' =
               [SysClose stdin_r, SysClose stdout_w, SysNonblock,
                SysWrite 0 2 (WOk 1), SysRead True (RFail EAGAIN),
                SysWrite 1 1 (WOk 1), SysRead True (RData ''o''),
                SysClose stdin_w, SysBlock,
                SysRead False (RData ''k''), SysRead False REof,
                SysClose stdout_r, SysWaitpid]
           \<and> sent ex_data (calls w') = ''hi''
           \<and> files w' ''o.d.1.0.2'' = Some (Blob [CHR ''o'', CHR ''k'', CHR 0x00])
           \<and> files w' ''o.i.1.0.2'' = Some (Index [(''a'', 0, 3)])
       | Blocked \<Rightarrow> False
       | Crash f \<Rightarrow> False)"
proof -
  let ?e = "\<lparr>e_offset = 0, e_length = 3, e_name = ''a''\<rparr>"
  have h: "1 \<le> unat (e_length ?e)" "pipe_stdin ex_slow_child = None"
    "pipe_stdout ex_slow_child = None" "fork ex_slow_child = None"
    "\<forall>a \<in> set (io ex_slow_child). \<exists>k. fst a = WOk k \<and> 0 < k"
    "unat (e_length ?e) - 1 \<le> length (io ex_slow_child)"
    "drain ex_slow_child = map RData [''k''] @ REof # []"
    "\<forall>d \<in> set [''k'']. d \<noteq> []"
    by (simp_all add: ex_slow_child_def)
  have ev: "(case ffindex_apply_by_entry ?e
             (Some ''o.d.1.0.2'') (Some ''o.i.1.0.2'') ex_slow_child 0 world0 of
         Ret (st, off', w') \<Rightarrow>
           st = EXIT_SUCCESS \<and> off' = 3
           \<and> calls w' =
               [SysClose stdin_r, SysClose stdout_w, SysNonblock,
                SysWrite 0 2 (WOk 1), SysRead True (RFail EAGAIN),
                SysWrite 1 1 (WOk 1), SysRead True (RData ''o''),
                SysClose stdin_w, SysBlock,
                SysRead False (RData ''k''), SysRead False REof,
                SysClose stdout_r, SysWaitpid]
           \<and> sent ex_data (calls w') = ''hi''
           \<and> files w' ''o.d.1.0.2'' = Some (Blob [CHR ''o'', CHR ''k'', CHR 0x00])
           \<and> files w' ''o.i.1.0.2'' = Some (Index [(''a'', 0, 3)])
       | Blocked \<Rightarrow> False
       | Crash f \<Rightarrow> False)"
    by (simp add: runner_eval ex_slow_child_def ex_data_def sent_def)
  then have nc: "ffindex_apply_by_entry ?e (Some ''o.d.1.0.2'') (Some ''o.i.1.0.2'')
                   ex_slow_child 0 world0 \<noteq> Crash BUFFER_OVERRUN"
    by (auto split: result.splits)
  from pipe_runner_algorithm [OF h, where dn = "''o.d.1.0.2''" and ixn = "''o.i.1.0.2''"
      and off = 0 and w = world0 and filedata = ex_data, THEN conjunct1]
  obtain L where
    c: "\<forall>c \<in> set L. write_count c \<le> unat PIPE_BUF"
    and s: "sent ex_data L = take (unat (e_length ?e) - 1) ex_data"
    and f: "reads_follow_writes L"
    and i: "if length (received L @ concat [''k'']) \<le> read_buffer_size
            then \<exists>off' w'.
                   ffindex_apply_by_entry ?e (Some ''o.d.1.0.2'') (Some ''o.i.1.0.2'')
                     ex_slow_child 0 world0 = Ret (EXIT_SUCCESS, off', w')
                   \<and> calls w' = calls world0 @ [SysClose stdin_r, SysClose stdout_w, SysNonblock]
                        @ L @ [SysClose stdin_w, SysBlock]
                        @ map (SysRead False) (map RData [''k''] @ [REof])
                        @ [SysClose stdout_r, SysWaitpid]
                   \<and> ffindex_insert_memory (files world0) (Some ''o.d.1.0.2'')
                        (Some ''o.i.1.0.2'') 0 (received L @ concat [''k'']) (e_name ?e)
                       = Inr (files w', off')
            else ffindex_apply_by_entry ?e (Some ''o.d.1.0.2'') (Some ''o.i.1.0.2'')
                   ex_slow_child 0 world0 = Crash BUFFER_OVERRUN"
    by blast
  from i nc have fit: "length (received L @ concat [''k'']) \<le> read_buffer_size"
    by (cases "length (received L @ concat [''k'']) \<le> read_buffer_size") simp_all
  with i have r: "\<exists>off' w'.
                   ffindex_apply_by_entry ?e (Some ''o.d.1.0.2'') (Some ''o.i.1.0.2'')
                     ex_slow_child 0 world0 = Ret (EXIT_SUCCESS, off', w')
                   \<and> calls w' = calls world0 @ [SysClose stdin_r, SysClose stdout_w, SysNonblock]
                        @ L @ [SysClose stdin_w, SysBlock]
                        @ map (SysRead False) (map RData [''k''] @ [REof])
                        @ [SysClose stdout_r, SysWaitpid]
                   \<and> ffindex_insert_memory (files world0) (Some ''o.d.1.0.2'')
                        (Some ''o.i.1.0.2'') 0 (received L @ concat [''k'']) ''a''
                       = Inr (files w', off')"
    by simp
  from c s f fit r have first: "\<exists>L. (\<forall>c \<in> set L. write_count c \<le> unat PIPE_BUF)
      \<and> sent ex_data L = take (unat (e_length ?e) - 1) ex_data
      \<and> reads_follow_writes L
      \<and> length (received L @ concat [''k'']) \<le> read_buffer_size
      \<and> (\<exists>off' w'.
          ffindex_apply_by_entry ?e
            (Some ''o.d.1.0.2'') (Some ''o.i.1.0.2'') ex_slow_child 0 world0
            = Ret (EXIT_SUCCESS, off', w')
          \<and> calls w' = calls world0 @ [SysClose stdin_r, SysClose stdout_w, SysNonblock] @ L
               @ [SysClose stdin_w, SysBlock] @ map (SysRead False) (map RData [''k''] @ [REof])
               @ [SysClose stdout_r, SysWaitpid]
          \<and> ffindex_insert_memory (files world0) (Some ''o.d.1.0.2'') (Some ''o.i.1.0.2'') 0
               (received L @ concat [''k'']) ''a'' = Inr (files w', off'))"
    by (intro exI [of _ L] conjI)
  from first ev show ?thesis by (rule conjI)
qed

text \<open>
  The claim as written, the captured bytes are everything the child wrote: an entry
  with an empty payload whose child writes 102401 times 4096 bytes, 4096 bytes more
  than \<open>read_buffer\<close> holds, and closes its output. The last \<open>read\<close> stores beyond
  \<open>read_buffer\<close>: the behaviour is undefined from there on, and the run ends as lost.
\<close>

theorem output_overruns_read_buffer:
  "ffindex_apply_by_entry \<lparr>e_offset = 0, e_length = 1, e_name = ''a''\<rparr>
     (Some ''o.d'') (Some ''o.i'')
     \<lparr>pipe_stdin = None, pipe_stdout = None, fork = None, io = [],
      drain = map RData (replicate 102401 (replicate 4096 (CHR ''x''))) @ [REof],
      wait = Exited 0\<rparr> 0 world0
   = Crash BUFFER_OVERRUN"
proof -
  let ?ds = "replicate 102401 (replicate 4096 (CHR ''x''))"
  have ne: "\<forall>d \<in> set ?ds. d \<noteq> []" by auto
  have "read_rest (map RData ?ds @ REof # []) [] []
          = (if read_buffer_size < length ([] @ concat ?ds) then Crash BUFFER_OVERRUN
             else Ret ([] @ concat ?ds, [] @ map (SysRead False) (map RData ?ds @ [REof])))"
    by (rule read_rest_to_eof [OF ne]) simp
  moreover have "read_buffer_size < length ([] @ concat ?ds)"
    by (simp add: read_buffer_size_def length_concat sum_list_replicate)
  ultimately have rr: "read_rest (map RData ?ds @ [REof]) [] [] = Crash BUFFER_OVERRUN"
    by (simp only: if_True)
  show ?thesis
    by (simp only: ffindex_apply_by_entry_def parent_branch_io pipe_io_capture rr Let_def
        child.simps ffindex_entry.simps option.simps result.case prod.case write_loop.simps
        diff_self not_Some_eq simp_thms if_True if_False less_irrefl)
qed

text \<open>
  The traffic on the pipes of a child that takes its input and ends its output runs
  to its end when all the bytes it has for the reads fit \<open>read_buffer\<close>, so the
  entries of such children are processed.
\<close>

lemma cooperative_io_completes:
  assumes "1 \<le> unat (e_length entry)"
    and "\<forall>a \<in> set (io ch). \<exists>k. fst a = WOk k \<and> 0 < k"
    and "unat (e_length entry) - 1 \<le> length (io ch)"
    and "drain ch = map RData ds @ REof # rest" and "\<forall>d \<in> set ds. d \<noteq> []"
    and "length (concat (map (\<lambda>a. read_data (snd a)) (io ch))) + length (concat ds)
           \<le> read_buffer_size"
  shows "io_completes entry cap ch"
proof -
  from pipe_io_cooperative [OF assms(1-5), of "[]" cap] obtain L where
    g: "length (received L) \<le> length (concat (map (\<lambda>a. read_data (snd a)) (io ch)))"
    and io: "pipe_io entry cap ch []
               = (if cap then
                    (if read_buffer_size < length (received L @ concat ds)
                     then Crash BUFFER_OVERRUN
                     else Ret (received L @ concat ds,
                               [SysClose stdin_r, SysClose stdout_w, SysNonblock] @ L
                                 @ [SysClose stdin_w, SysBlock]
                                 @ map (SysRead False) (map RData ds @ [REof])
                                 @ [SysClose stdout_r]))
                  else Ret ([], [SysClose stdin_r] @ L @ [SysClose stdin_w]))"
    by blast
  from g assms(6) have "\<not> read_buffer_size < length (received L @ concat ds)" by simp
  with io show ?thesis by (simp add: io_completes_def)
qed

section \<open>Appending merges\<close>

lemma append_step:
  assumes "dst_data c \<noteq> dst_index c"
    and "dst_data c \<notin> {src_data c, src_index c}"
    and "dst_index c \<notin> {src_data c, src_index c}"
    and "src_data c \<noteq> src_index c"
    and "shard_whole fs (src_data c) (src_index c)"
  shows "entry_names (append_and_remove fs c) (dst_index c)
           = entry_names fs (dst_index c) @ entry_names fs (src_index c)"
    and "shard_whole fs (dst_data c) (dst_index c)
           \<Longrightarrow> shard_whole (append_and_remove fs c) (dst_data c) (dst_index c)"
    and "p \<notin> {dst_data c, dst_index c, src_data c, src_index c}
           \<Longrightarrow> append_and_remove fs c p = fs p"
  using assms
  by (auto simp: append_and_remove_def ffindex_build_as_def shard_whole_def entry_names_def
      lines_of_def Let_def shift_line_def split: option.splits shard_file.splits)

lemma shard_whole_cong:
  "fs' dat = fs dat \<Longrightarrow> fs' ix = fs ix \<Longrightarrow> shard_whole fs' dat ix = shard_whole fs dat ix"
  by (simp add: shard_whole_def split: option.splits shard_file.splits)

lemma entry_names_cong: "fs' p = fs p \<Longrightarrow> entry_names fs' p = entry_names fs p"
  by (simp add: entry_names_def lines_of_def)

lemma append_fold:
  assumes "\<forall>c \<in> set cmds. dst_data c = dd \<and> dst_index c = di"
    and "dd \<noteq> di"
    and "distinct (sources cmds)"
    and "dd \<notin> set (sources cmds)" and "di \<notin> set (sources cmds)"
    and "\<forall>c \<in> set cmds. shard_whole fs (src_data c) (src_index c)"
  shows "entry_names (foldl append_and_remove fs cmds) di
           = entry_names fs di @ concat (map (\<lambda>c. entry_names fs (src_index c)) cmds)
         \<and> (shard_whole fs dd di \<longrightarrow> shard_whole (foldl append_and_remove fs cmds) dd di)
         \<and> (\<forall>p. p \<noteq> dd \<and> p \<noteq> di \<and> p \<notin> set (sources cmds)
                \<longrightarrow> foldl append_and_remove fs cmds p = fs p)"
  using assms
proof (induction cmds arbitrary: fs)
  case Nil
  show ?case by simp
next
  case (Cons c cs)
  let ?fs1 = "append_and_remove fs c"
  from Cons.prems(1) have dst: "dst_data c = dd" "dst_index c = di"
    and dsts: "\<forall>c \<in> set cs. dst_data c = dd \<and> dst_index c = di"
    by simp_all
  from Cons.prems(3) have sc: "src_data c \<noteq> src_index c"
    and dcs: "distinct (sources cs)"
    and apart: "src_data c \<notin> set (sources cs)" "src_index c \<notin> set (sources cs)"
    by (auto simp: sources_def)
  from Cons.prems(4,5) have nd: "dd \<notin> {src_data c, src_index c}" "di \<notin> {src_data c, src_index c}"
    and nds: "dd \<notin> set (sources cs)" "di \<notin> set (sources cs)"
    by (auto simp: sources_def)
  from Cons.prems(6) have wc: "shard_whole fs (src_data c) (src_index c)"
    and wcs: "\<forall>c \<in> set cs. shard_whole fs (src_data c) (src_index c)"
    by simp_all
  have a1: "dst_data c \<noteq> dst_index c" "dst_data c \<notin> {src_data c, src_index c}"
    "dst_index c \<notin> {src_data c, src_index c}"
    using dst Cons.prems(2) nd by simp_all
  note S = append_step [OF a1 sc wc]
  have keep: "?fs1 p = fs p" if "p \<noteq> dd" "p \<noteq> di" "p \<noteq> src_data c" "p \<noteq> src_index c" for p
    using S(3) [of p] that dst by simp
  have same: "?fs1 (src_data c') = fs (src_data c') \<and> ?fs1 (src_index c') = fs (src_index c')"
    if "c' \<in> set cs" for c'
  proof -
    from that have "src_data c' \<in> set (sources cs)" "src_index c' \<in> set (sources cs)"
      by (auto simp: sources_def)
    with nds apart show ?thesis by (intro conjI keep) auto
  qed
  have wcs1: "\<forall>c \<in> set cs. shard_whole ?fs1 (src_data c) (src_index c)"
  proof
    fix c'
    assume c': "c' \<in> set cs"
    from same [OF c'] have "shard_whole ?fs1 (src_data c') (src_index c')
                             = shard_whole fs (src_data c') (src_index c')"
      by (intro shard_whole_cong) simp_all
    with wcs c' show "shard_whole ?fs1 (src_data c') (src_index c')" by simp
  qed
  have names2: "map (\<lambda>c. entry_names ?fs1 (src_index c)) cs
                  = map (\<lambda>c. entry_names fs (src_index c)) cs"
  proof (rule map_cong [OF refl])
    fix c'
    assume "c' \<in> set cs"
    from same [OF this] show "entry_names ?fs1 (src_index c') = entry_names fs (src_index c')"
      by (intro entry_names_cong) simp
  qed
  from Cons.IH [OF dsts Cons.prems(2) dcs nds wcs1] have
    n: "entry_names (foldl append_and_remove ?fs1 cs) di
          = entry_names ?fs1 di @ concat (map (\<lambda>c. entry_names ?fs1 (src_index c)) cs)"
    and w: "shard_whole ?fs1 dd di \<longrightarrow> shard_whole (foldl append_and_remove ?fs1 cs) dd di"
    and f: "\<forall>p. p \<noteq> dd \<and> p \<noteq> di \<and> p \<notin> set (sources cs)
              \<longrightarrow> foldl append_and_remove ?fs1 cs p = ?fs1 p"
    by simp_all
  have 1: "entry_names (foldl append_and_remove fs (c # cs)) di
           = entry_names fs di @ concat (map (\<lambda>c. entry_names fs (src_index c)) (c # cs))"
    using n S(1) dst names2 by simp
  have 2: "shard_whole fs dd di \<longrightarrow> shard_whole (foldl append_and_remove fs (c # cs)) dd di"
    using w S(2) dst by simp
  have 3: "\<forall>p. p \<noteq> dd \<and> p \<noteq> di \<and> p \<notin> set (sources (c # cs))
              \<longrightarrow> foldl append_and_remove fs (c # cs) p = fs p"
  proof (intro allI impI)
    fix p
    assume p: "p \<noteq> dd \<and> p \<noteq> di \<and> p \<notin> set (sources (c # cs))"
    then have q: "p \<noteq> dd" "p \<noteq> di" "p \<noteq> src_data c" "p \<noteq> src_index c"
      "p \<notin> set (sources cs)"
      by (auto simp: sources_def)
    from f q have "foldl append_and_remove ?fs1 cs p = ?fs1 p" by simp
    with keep [OF q(1-4)] show "foldl append_and_remove fs (c # cs) p = fs p" by simp
  qed
  from 1 2 3 show ?case by (intro conjI)
qed

section \<open>The merge commands as the shell runs them\<close>

lemma sh_worker_command:
  assumes fits: "length (worker_merge_text d i rank x) < FILENAME_MAX"
    and d: "name_ok d" and i: "name_ok i"
  shows "sh_ffindex_build other (worker_merge_command d i rank x) fs
           = ffindex_build_as (worker_merge_args d i rank x) fs"
proof -
  note W = worker_command_words [OF fits d i]
  from d i have "hd (rank_file d rank) \<noteq> CHR ''-''" "hd (rank_file i rank) \<noteq> CHR ''-''"
    by (simp_all add: name_ok_def rank_file_def)
  then show ?thesis
    by (simp add: sh_ffindex_build_def W(3,4) worker_merge_args_def)
qed

lemma sh_command:
  assumes fits: "length (merge_text d i k) < FILENAME_MAX"
    and d: "name_ok d" and i: "name_ok i"
  shows "sh_ffindex_build other (merge_command d i k) fs = ffindex_build_as (merge_args d i k) fs"
proof -
  note W = command_words [OF fits d i]
  from d i have "hd d \<noteq> CHR ''-''" "hd i \<noteq> CHR ''-''"
    by (simp_all add: name_ok_def)
  then show ?thesis
    by (simp add: sh_ffindex_build_def W(3,4) merge_args_def)
qed

lemma worker_step_files:
  assumes fits: "length (worker_merge_text d i rank x) < FILENAME_MAX"
    and d: "name_ok d" and i: "name_ok i"
  shows "files (worker_merge_step (sh_ffindex_build other) d i rank True w x)
           = append_and_remove (files w) (worker_merge_args d i rank x)"
proof -
  note W = worker_command_words [OF fits d i]
  show ?thesis
    by (simp add: worker_merge_step_def run_system_def remove_file_def Let_def
        append_and_remove_def sh_worker_command [OF fits d i] W(1,2) worker_merge_args_def)
qed

lemma step_files:
  assumes fits: "length (merge_text d i k) < FILENAME_MAX"
    and d: "name_ok d" and i: "name_ok i"
  shows "files (merge_step (sh_ffindex_build other) d i True w k)
           = append_and_remove (files w) (merge_args d i k)"
proof -
  note W = command_words [OF fits d i]
  show ?thesis
    by (simp add: merge_step_def run_system_def remove_file_def Let_def
        append_and_remove_def sh_command [OF fits d i] W(1,2) merge_args_def)
qed

lemma worker_fold_files:
  assumes d: "name_ok d" and i: "name_ok i"
  shows "\<forall>x \<in> set xs. length (worker_merge_text d i rank x) < FILENAME_MAX \<Longrightarrow>
     files (foldl (worker_merge_step (sh_ffindex_build other) d i rank True) w xs)
       = foldl append_and_remove (files w) (map (worker_merge_args d i rank) xs)"
proof (induction xs arbitrary: w)
  case Nil
  show ?case by simp
next
  case (Cons x xs)
  then have "length (worker_merge_text d i rank x) < FILENAME_MAX"
    and r: "\<forall>x \<in> set xs. length (worker_merge_text d i rank x) < FILENAME_MAX"
    by simp_all
  from worker_step_files [OF this(1) d i, of other w] Cons.IH [OF r] show ?case by simp
qed

lemma fold_files:
  assumes d: "name_ok d" and i: "name_ok i"
  shows "\<forall>k \<in> set ks. length (merge_text d i k) < FILENAME_MAX \<Longrightarrow>
     files (foldl (merge_step (sh_ffindex_build other) d i True) w ks)
       = foldl append_and_remove (files w) (map (merge_args d i) ks)"
proof (induction ks arbitrary: w)
  case Nil
  show ?case by simp
next
  case (Cons k ks)
  then have "length (merge_text d i k) < FILENAME_MAX"
    and r: "\<forall>k \<in> set ks. length (merge_text d i k) < FILENAME_MAX"
    by simp_all
  from step_files [OF this(1) d i, of other w] Cons.IH [OF r] show ?case by simp
qed

section \<open>The names of the chunk shards\<close>

lemma show_int_ucast:
  "unat s < 2 ^ 31 \<Longrightarrow> show_int (sint (ucast s :: c_int)) = show_nat (unat s)" for s :: size_t
  by (simp add: ucast_small show_int_def)

lemma chunk_file_d_zu:
  "unat s < 2 ^ 31 \<Longrightarrow> unat e < 2 ^ 31 \<Longrightarrow>
     chunk_file_d base rank (ucast s) (ucast e) = chunk_file_zu base rank s e"
  by (simp add: chunk_file_d_def chunk_file_zu_def show_int_ucast)
section \<open>What a worker leaves on the files\<close>

lemma entry_processed_Some:
  "entry_processed idx child_of (Some x) (Some y) k
     = entry_processed idx child_of (Some x') (Some y') k"
  by (simp add: entry_processed_def)

lemma shard_there_cong:
  "fs' dat = fs dat \<Longrightarrow> fs' ix = fs ix \<Longrightarrow> shard_there fs' dat ix = shard_there fs dat ix"
  by (simp add: shard_there_def)

lemma shard_there_whole: "shard_there fs dat ix \<Longrightarrow> shard_whole fs dat ix"
  by (auto simp: shard_there_def shard_whole_def split: option.splits shard_file.splits)

lemma insert_memory_frame:
  assumes "dn \<noteq> ixn"
  shows "\<exists>fs' off'. ffindex_insert_memory fs (Some dn) (Some ixn) off bytes nm = Inr (fs', off')
           \<and> entry_names fs' ixn = entry_names fs ixn @ [nm]
           \<and> shard_there fs' dn ixn
           \<and> (\<forall>p. p \<noteq> dn \<and> p \<noteq> ixn \<longrightarrow> fs' p = fs p)"
  using assms
  by (simp add: ffindex_insert_memory_def Let_def entry_names_def lines_of_def shard_there_def)

lemma runner_capture:
  assumes pr: "entry_processed idx child_of (Some dn) (Some ixn) k" and ne: "dn \<noteq> ixn"
  shows "\<exists>off' w'. ffindex_apply_by_entry (idx ! k) (Some dn) (Some ixn) (child_of k) off w
                      = Ret (EXIT_SUCCESS, off', w')
           \<and> entry_names (files w') ixn = entry_names (files w) ixn @ [e_name (idx ! k)]
           \<and> shard_there (files w') dn ixn
           \<and> (\<forall>p. p \<noteq> dn \<and> p \<noteq> ixn \<longrightarrow> files w' p = files w p)
           \<and> worker_splits_head w' = worker_splits_head w"
proof -
  from pr have p: "pipe_stdin (child_of k) = None"
    "Some dn \<noteq> None \<longrightarrow> pipe_stdout (child_of k) = None" "fork (child_of k) = None"
    and cm: "io_completes (idx ! k) True (child_of k)"
    by (simp_all add: entry_processed_def)
  from cm obtain b tr where io: "pipe_io (idx ! k) True (child_of k) [] = Ret (b, tr)"
    by (cases "pipe_io (idx ! k) True (child_of k) []") (auto simp: io_completes_def)
  from insert_memory_frame [OF ne, of "files w" off b "e_name (idx ! k)"] obtain fs' off' where
    ins: "ffindex_insert_memory (files w) (Some dn) (Some ixn) off b (e_name (idx ! k))
            = Inr (fs', off')"
    and n: "entry_names fs' ixn = entry_names (files w) ixn @ [e_name (idx ! k)]"
    and t: "shard_there fs' dn ixn"
    and f: "\<forall>p. p \<noteq> dn \<and> p \<noteq> ixn \<longrightarrow> fs' p = files w p"
    by blast
  have "ffindex_apply_by_entry (idx ! k) (Some dn) (Some ixn) (child_of k) off w
          = Ret (EXIT_SUCCESS, off',
                 wait_and_report (idx ! k) (wait (child_of k))
                   (w\<lparr>files := fs', calls := calls w @ tr\<rparr>))"
    by (simp add: runner_io [OF p] parent_branch_io io ins)
  with n t f show ?thesis by (simp add: frame_wait_and_report)
qed

lemma payload_loop_capture:
  assumes "\<forall>k \<in> set ks. entry_processed idx child_of (Some dn) (Some ixn) k" and "dn \<noteq> ixn"
  shows "\<exists>w'. payload_loop idx child_of (Some dn) (Some ixn) ks off w = Ret (EXIT_SUCCESS, w')
           \<and> entry_names (files w') ixn
               = entry_names (files w) ixn @ map (\<lambda>k. e_name (idx ! k)) ks
           \<and> (shard_there (files w) dn ixn \<longrightarrow> shard_there (files w') dn ixn)
           \<and> (\<forall>p. p \<noteq> dn \<and> p \<noteq> ixn \<longrightarrow> files w' p = files w p)
           \<and> worker_splits_head w' = worker_splits_head w"
  using assms(1)
proof (induction ks arbitrary: off w)
  case Nil
  show ?case by simp
next
  case (Cons k ks)
  then have k: "entry_processed idx child_of (Some dn) (Some ixn) k" by simp
  then have e: "ffindex_get_entry_by_index idx k = Some (idx ! k)"
    by (simp add: entry_processed_def ffindex_get_entry_by_index_def)
  from runner_capture [OF k assms(2), of off w] obtain off1 w1 where
    r: "ffindex_apply_by_entry (idx ! k) (Some dn) (Some ixn) (child_of k) off w
          = Ret (EXIT_SUCCESS, off1, w1)"
    and n: "entry_names (files w1) ixn = entry_names (files w) ixn @ [e_name (idx ! k)]"
    and t: "shard_there (files w1) dn ixn"
    and f: "\<forall>p. p \<noteq> dn \<and> p \<noteq> ixn \<longrightarrow> files w1 p = files w p"
    and s: "worker_splits_head w1 = worker_splits_head w"
    by blast
  from Cons.prems have "\<forall>k \<in> set ks. entry_processed idx child_of (Some dn) (Some ixn) k"
    by simp
  from Cons.IH [OF this, of off1 w1] obtain w' where
    l: "payload_loop idx child_of (Some dn) (Some ixn) ks off1 w1 = Ret (EXIT_SUCCESS, w')"
    and n': "entry_names (files w') ixn
               = entry_names (files w1) ixn @ map (\<lambda>k. e_name (idx ! k)) ks"
    and t': "shard_there (files w1) dn ixn \<longrightarrow> shard_there (files w') dn ixn"
    and f': "\<forall>p. p \<noteq> dn \<and> p \<noteq> ixn \<longrightarrow> files w' p = files w1 p"
    and s': "worker_splits_head w' = worker_splits_head w1"
    by blast
  from r e l have "payload_loop idx child_of (Some dn) (Some ixn) (k # ks) off w
                     = Ret (EXIT_SUCCESS, w')"
    by simp
  with n n' t t' f f' s s' show ?case by simp
qed

lemma payload_capture:
  assumes d: "a_data_filename_out ad = Some d" and i: "a_index_filename_out ad = Some i"
    and ne: "snprintf FILENAME_MAX (chunk_file_zu d rank s e)
               \<noteq> snprintf FILENAME_MAX (chunk_file_zu i rank s e)"
    and runs: "\<forall>k \<in> set [unat s ..< unat e].
                 entry_processed (a_index ad) child_of (Some d) (Some i) k"
  shows "\<exists>w'. ffindex_apply_worker_payload rank (\<lambda>p. False) child_of s e ad w
                 = Ret (EXIT_SUCCESS, w')
           \<and> entry_names (files w') (snprintf FILENAME_MAX (chunk_file_zu i rank s e))
               = chunk_names (a_index ad) (s, e)
           \<and> shard_there (files w') (snprintf FILENAME_MAX (chunk_file_zu d rank s e))
               (snprintf FILENAME_MAX (chunk_file_zu i rank s e))
           \<and> (\<forall>p. p \<noteq> snprintf FILENAME_MAX (chunk_file_zu d rank s e)
                  \<and> p \<noteq> snprintf FILENAME_MAX (chunk_file_zu i rank s e)
                  \<longrightarrow> files w' p = files w p)
           \<and> worker_splits_head w' = chunk_split (s, e) EXIT_SUCCESS # worker_splits_head w"
proof -
  define dn where "dn = snprintf FILENAME_MAX (chunk_file_zu d rank s e)"
  define ixn where "ixn = snprintf FILENAME_MAX (chunk_file_zu i rank s e)"
  define w2 where "w2 = w\<lparr>files := (files w)(dn \<mapsto> Blob [], ixn \<mapsto> Index [])\<rparr>"
  from ne have nn: "dn \<noteq> ixn" by (simp add: dn_def ixn_def)
  from runs have runs': "\<forall>k \<in> set [unat s ..< unat e].
                 entry_processed (a_index ad) child_of (Some dn) (Some ixn) k"
    by (simp add: entry_processed_Some [of _ _ dn ixn _ d i])
  have e0: "entry_names (files w2) ixn = []" "shard_there (files w2) dn ixn"
    "worker_splits_head w2 = worker_splits_head w"
    "\<forall>p. p \<noteq> dn \<and> p \<noteq> ixn \<longrightarrow> files w2 p = files w p"
    using nn by (simp_all add: w2_def entry_names_def lines_of_def shard_there_def)
  from payload_loop_capture [OF runs' nn, of 0 w2] e0 obtain w3 where
    l: "payload_loop (a_index ad) child_of (Some dn) (Some ixn) [unat s ..< unat e] 0 w2
          = Ret (EXIT_SUCCESS, w3)"
    and n: "entry_names (files w3) ixn = map (\<lambda>k. e_name (a_index ad ! k)) [unat s ..< unat e]"
    and t: "shard_there (files w3) dn ixn"
    and f: "\<forall>p. p \<noteq> dn \<and> p \<noteq> ixn \<longrightarrow> files w3 p = files w p"
    and sp: "worker_splits_head w3 = worker_splits_head w"
    by auto
  have "ffindex_apply_worker_payload rank (\<lambda>p. False) child_of s e ad w
          = Ret (EXIT_SUCCESS,
                 w3\<lparr>worker_splits_head := chunk_split (s, e) EXIT_SUCCESS # worker_splits_head w3\<rparr>)"
    using d i l
    by (simp add: ffindex_apply_worker_payload_def Let_def fopen_w_def fopen_fails_on_def
        dn_def ixn_def w2_def chunk_split_def)
  with n t f sp show ?thesis
    unfolding dn_def ixn_def by (simp add: chunk_names_def)
qed

lemma worker_capture:
  assumes d: "a_data_filename_out ad = Some d" and i: "a_index_filename_out ad = Some i"
  shows "\<forall>c \<in> set cs.
           snprintf FILENAME_MAX (chunk_file_zu d rank (fst c) (snd c))
             = chunk_file_zu d rank (fst c) (snd c)
           \<and> snprintf FILENAME_MAX (chunk_file_zu i rank (fst c) (snd c))
               = chunk_file_zu i rank (fst c) (snd c)
           \<and> (\<forall>k \<in> set [unat (fst c) ..< unat (snd c)].
                 entry_processed (a_index ad) child_of (Some d) (Some i) k) \<Longrightarrow>
         distinct (chunk_shard_names d i rank cs) \<Longrightarrow>
         \<exists>w1. MPQ_worker rank (\<lambda>p. False) child_of cs ad w = Ret w1
           \<and> worker_splits_head w1
               = rev (map (\<lambda>c. chunk_split c EXIT_SUCCESS) cs) @ worker_splits_head w
           \<and> (\<forall>c \<in> set cs.
                 entry_names (files w1) (chunk_file_zu i rank (fst c) (snd c))
                   = chunk_names (a_index ad) c
                 \<and> shard_there (files w1) (chunk_file_zu d rank (fst c) (snd c))
                     (chunk_file_zu i rank (fst c) (snd c)))
           \<and> (\<forall>p. p \<notin> set (chunk_shard_names d i rank cs) \<longrightarrow> files w1 p = files w p)"
proof (induction cs arbitrary: w)
  case Nil
  show ?case by (simp add: chunk_shard_names_def)
next
  case (Cons c cs)
  define dn where "dn = chunk_file_zu d rank (fst c) (snd c)"
  define ixn where "ixn = chunk_file_zu i rank (fst c) (snd c)"
  from Cons.prems(1) have
    cut: "snprintf FILENAME_MAX (chunk_file_zu d rank (fst c) (snd c)) = dn"
      "snprintf FILENAME_MAX (chunk_file_zu i rank (fst c) (snd c)) = ixn"
    and runs: "\<forall>k \<in> set [unat (fst c) ..< unat (snd c)].
                 entry_processed (a_index ad) child_of (Some d) (Some i) k"
    and rest: "\<forall>c \<in> set cs.
           snprintf FILENAME_MAX (chunk_file_zu d rank (fst c) (snd c))
             = chunk_file_zu d rank (fst c) (snd c)
           \<and> snprintf FILENAME_MAX (chunk_file_zu i rank (fst c) (snd c))
               = chunk_file_zu i rank (fst c) (snd c)
           \<and> (\<forall>k \<in> set [unat (fst c) ..< unat (snd c)].
                 entry_processed (a_index ad) child_of (Some d) (Some i) k)"
    by (simp_all add: dn_def ixn_def)
  from Cons.prems(2) have nn: "dn \<noteq> ixn"
    and out: "dn \<notin> set (chunk_shard_names d i rank cs)"
      "ixn \<notin> set (chunk_shard_names d i rank cs)"
    and dist: "distinct (chunk_shard_names d i rank cs)"
    by (auto simp: chunk_shard_names_def dn_def ixn_def)
  from nn cut have ne: "snprintf FILENAME_MAX (chunk_file_zu d rank (fst c) (snd c))
               \<noteq> snprintf FILENAME_MAX (chunk_file_zu i rank (fst c) (snd c))"
    by simp
  from payload_capture [OF d i ne runs, of w] cut obtain w' where
    p: "ffindex_apply_worker_payload rank (\<lambda>p. False) child_of (fst c) (snd c) ad w
          = Ret (EXIT_SUCCESS, w')"
    and n: "entry_names (files w') ixn = chunk_names (a_index ad) c"
    and t: "shard_there (files w') dn ixn"
    and f: "\<forall>p. p \<noteq> dn \<and> p \<noteq> ixn \<longrightarrow> files w' p = files w p"
    and s: "worker_splits_head w' = chunk_split c EXIT_SUCCESS # worker_splits_head w"
    by auto
  from Cons.IH [OF rest dist, of w'] obtain w1 where
    r: "MPQ_worker rank (\<lambda>p. False) child_of cs ad w' = Ret w1"
    and s1: "worker_splits_head w1
               = rev (map (\<lambda>c. chunk_split c EXIT_SUCCESS) cs) @ worker_splits_head w'"
    and n1: "\<forall>c \<in> set cs.
                 entry_names (files w1) (chunk_file_zu i rank (fst c) (snd c))
                   = chunk_names (a_index ad) c
                 \<and> shard_there (files w1) (chunk_file_zu d rank (fst c) (snd c))
                     (chunk_file_zu i rank (fst c) (snd c))"
    and f1: "\<forall>p. p \<notin> set (chunk_shard_names d i rank cs) \<longrightarrow> files w1 p = files w' p"
    by blast
  from f1 out have same: "files w1 dn = files w' dn" "files w1 ixn = files w' ixn" by simp_all
  have c1: "entry_names (files w1) ixn = chunk_names (a_index ad) c"
    using n entry_names_cong [of "files w1" ixn "files w'"] same by simp
  have c2: "shard_there (files w1) dn ixn"
    using t shard_there_cong [of "files w1" dn "files w'" ixn] same by simp
  have run: "MPQ_worker rank (\<lambda>p. False) child_of (c # cs) ad w = Ret w1"
    using p r by simp
  have sp: "worker_splits_head w1
               = rev (map (\<lambda>c. chunk_split c EXIT_SUCCESS) (c # cs)) @ worker_splits_head w"
    using s s1 by simp
  have all: "\<forall>c' \<in> set (c # cs).
                 entry_names (files w1) (chunk_file_zu i rank (fst c') (snd c'))
                   = chunk_names (a_index ad) c'
                 \<and> shard_there (files w1) (chunk_file_zu d rank (fst c') (snd c'))
                     (chunk_file_zu i rank (fst c') (snd c'))"
    using c1 c2 n1 by (simp add: dn_def ixn_def)
  have fr: "\<forall>p. p \<notin> set (chunk_shard_names d i rank (c # cs)) \<longrightarrow> files w1 p = files w p"
  proof (intro allI impI)
    fix p
    assume "p \<notin> set (chunk_shard_names d i rank (c # cs))"
    then have "p \<noteq> dn" "p \<noteq> ixn" "p \<notin> set (chunk_shard_names d i rank cs)"
      by (auto simp: chunk_shard_names_def dn_def ixn_def)
    with f f1 show "files w1 p = files w p" by simp
  qed
  from run sp all fr show ?case by (intro exI [of _ w1] conjI)
qed

section \<open>One worker from start to end\<close>

lemma distinct_concat_rev:
  "distinct (concat (map f xs)) \<Longrightarrow> distinct (concat (map f (rev xs)))"
  by (induction xs) auto

lemma sources_chunk_shards:
  "sources (map (\<lambda>c. \<lparr>src_data = chunk_file_zu d r (fst c) (snd c),
                        src_index = chunk_file_zu i r (fst c) (snd c),
                        dst_data = dd, dst_index = di\<rparr>) cs)
     = chunk_shard_names d i r cs"
  by (simp add: sources_def chunk_shard_names_def comp_def)

lemma set_chunk_shard_names_rev:
  "set (chunk_shard_names d i r (rev cs)) = set (chunk_shard_names d i r cs)"
  by (simp add: chunk_shard_names_def)

lemma main_worker_result:
  assumes d: "a_data_filename_out ad = Some d" and i: "a_index_filename_out ad = Some i"
    and nd: "name_ok d" and ni: "name_ok i"
    and fitint: "\<forall>c \<in> set cs. unat (fst c) < 2 ^ 31 \<and> unat (snd c) < 2 ^ 31"
    and fits: "\<forall>c \<in> set cs.
                 length (worker_merge_text d i r (chunk_split c EXIT_SUCCESS)) < FILENAME_MAX"
    and runs: "\<forall>c \<in> set cs. \<forall>k \<in> set [unat (fst c) ..< unat (snd c)].
                 entry_processed (a_index ad) child_of (Some d) (Some i) k"
    and dist: "distinct (rank_file d r # rank_file i r # chunk_shard_names d i r cs)"
    and whole: "shard_whole fs (rank_file d r) (rank_file i r)"
  shows "\<exists>w. main_worker (sh_ffindex_build other) r (\<lambda>p. False) child_of cs ad
                (world0\<lparr>files := fs\<rparr>) = Ret w
           \<and> entry_names (files w) (rank_file i r)
               = entry_names fs (rank_file i r)
                   @ concat (map (chunk_names (a_index ad)) (rev cs))
           \<and> shard_whole (files w) (rank_file d r) (rank_file i r)
           \<and> (\<forall>p. p \<notin> set (rank_file d r # rank_file i r # chunk_shard_names d i r cs)
                  \<longrightarrow> files w p = fs p)"
proof -
  define dd where "dd = rank_file d r"
  define di where "di = rank_file i r"
  define cmd where
    "cmd = (\<lambda>c. \<lparr>src_data = chunk_file_zu d r (fst c) (snd c),
                  src_index = chunk_file_zu i r (fst c) (snd c),
                  dst_data = dd, dst_index = di\<rparr>)"
  define w0 where "w0 = (world0\<lparr>files := fs\<rparr>)\<lparr>worker_splits_head := []\<rparr>"
  have args: "worker_merge_args d i r (chunk_split c EXIT_SUCCESS) = cmd c" if "c \<in> set cs" for c
    using that fitint
    by (simp add: worker_merge_args_def chunk_split_def cmd_def dd_def di_def chunk_file_d_zu)
  have uncut: "snprintf FILENAME_MAX (chunk_file_zu d r (fst c) (snd c))
                 = chunk_file_zu d r (fst c) (snd c)
               \<and> snprintf FILENAME_MAX (chunk_file_zu i r (fst c) (snd c))
                   = chunk_file_zu i r (fst c) (snd c)"
    if "c \<in> set cs" for c
  proof -
    from that fits have
      f: "length (worker_merge_text d i r (chunk_split c EXIT_SUCCESS)) < FILENAME_MAX"
      by simp
    from that fitint have b: "unat (fst c) < 2 ^ 31" "unat (snd c) < 2 ^ 31" by simp_all
    from worker_command_words(1,2) [OF f nd ni] show ?thesis
      by (simp add: chunk_split_def chunk_file_d_zu [OF b])
  qed
  have pre: "\<forall>c \<in> set cs.
           snprintf FILENAME_MAX (chunk_file_zu d r (fst c) (snd c))
             = chunk_file_zu d r (fst c) (snd c)
           \<and> snprintf FILENAME_MAX (chunk_file_zu i r (fst c) (snd c))
               = chunk_file_zu i r (fst c) (snd c)
           \<and> (\<forall>k \<in> set [unat (fst c) ..< unat (snd c)].
                 entry_processed (a_index ad) child_of (Some d) (Some i) k)"
    using uncut runs by simp
  from dist have dcs: "distinct (chunk_shard_names d i r cs)"
    and ddi: "dd \<noteq> di"
    and out: "dd \<notin> set (chunk_shard_names d i r cs)" "di \<notin> set (chunk_shard_names d i r cs)"
    by (simp_all add: dd_def di_def)
  from worker_capture [OF d i pre dcs, of w0] obtain w1 where
    run: "MPQ_worker r (\<lambda>p. False) child_of cs ad w0 = Ret w1"
    and sp: "worker_splits_head w1 = rev (map (\<lambda>c. chunk_split c EXIT_SUCCESS) cs)"
    and there: "\<forall>c \<in> set cs.
                 entry_names (files w1) (chunk_file_zu i r (fst c) (snd c))
                   = chunk_names (a_index ad) c
                 \<and> shard_there (files w1) (chunk_file_zu d r (fst c) (snd c))
                     (chunk_file_zu i r (fst c) (snd c))"
    and fr: "\<forall>p. p \<notin> set (chunk_shard_names d i r cs) \<longrightarrow> files w1 p = fs p"
    by (auto simp: w0_def)
  define w where
    "w = ffindex_worker_merge_splits (sh_ffindex_build other) (Some d) (Some i) r True w1"
  have mw: "main_worker (sh_ffindex_build other) r (\<lambda>p. False) child_of cs ad
              (world0\<lparr>files := fs\<rparr>) = Ret w"
    using run d i by (simp add: main_worker_def w_def w0_def)
  have fits': "\<forall>x \<in> set (worker_splits_head w1).
                 length (worker_merge_text d i r x) < FILENAME_MAX"
    using fits by (simp add: sp)
  have "map (worker_merge_args d i r) (worker_splits_head w1) = map cmd (rev cs)"
    using args by (simp add: sp rev_map)
  with worker_fold_files [OF nd ni fits', of other w1]
  have fw: "files w = foldl append_and_remove (files w1) (map cmd (rev cs))"
    by (simp add: w_def ffindex_worker_merge_splits_def)
  have src: "sources (map cmd (rev cs)) = chunk_shard_names d i r (rev cs)"
    unfolding cmd_def by (rule sources_chunk_shards)
  have a1: "\<forall>c \<in> set (map cmd (rev cs)). dst_data c = dd \<and> dst_index c = di"
    by (simp add: cmd_def)
  have a3: "distinct (sources (map cmd (rev cs)))"
    unfolding src chunk_shard_names_def
    using dcs [unfolded chunk_shard_names_def] by (rule distinct_concat_rev)
  have a4: "dd \<notin> set (sources (map cmd (rev cs)))" "di \<notin> set (sources (map cmd (rev cs)))"
    using out by (simp_all add: src set_chunk_shard_names_rev)
  have a6: "\<forall>c \<in> set (map cmd (rev cs)). shard_whole (files w1) (src_data c) (src_index c)"
    using there by (auto simp: cmd_def intro: shard_there_whole)
  from append_fold [OF a1 ddi a3 a4 a6] have
    n: "entry_names (foldl append_and_remove (files w1) (map cmd (rev cs))) di
          = entry_names (files w1) di
              @ concat (map (\<lambda>c. entry_names (files w1) (src_index c)) (map cmd (rev cs)))"
    and wh: "shard_whole (files w1) dd di
               \<longrightarrow> shard_whole (foldl append_and_remove (files w1) (map cmd (rev cs))) dd di"
    and f: "\<forall>p. p \<noteq> dd \<and> p \<noteq> di \<and> p \<notin> set (sources (map cmd (rev cs)))
              \<longrightarrow> foldl append_and_remove (files w1) (map cmd (rev cs)) p = files w1 p"
    by simp_all
  from fr out have same: "files w1 dd = fs dd" "files w1 di = fs di" by simp_all
  have n0: "entry_names (files w1) di = entry_names fs di"
    using entry_names_cong [of "files w1" di fs] same by simp
  have w0': "shard_whole (files w1) dd di"
    using whole shard_whole_cong [of "files w1" dd fs di] same by (simp add: dd_def di_def)
  have nm: "map (\<lambda>c. entry_names (files w1) (src_index c)) (map cmd (rev cs))
              = map (chunk_names (a_index ad)) (rev cs)"
    using there by (simp add: cmd_def)
  have 1: "entry_names (files w) di
             = entry_names fs di @ concat (map (chunk_names (a_index ad)) (rev cs))"
    by (simp only: fw n n0 nm)
  have 2: "shard_whole (files w) dd di" using wh w0' by (simp add: fw)
  have 3: "\<forall>p. p \<notin> set (dd # di # chunk_shard_names d i r cs) \<longrightarrow> files w p = fs p"
  proof (intro allI impI)
    fix p
    assume "p \<notin> set (dd # di # chunk_shard_names d i r cs)"
    then have q: "p \<noteq> dd" "p \<noteq> di" "p \<notin> set (chunk_shard_names d i r cs)" by simp_all
    then have "p \<notin> set (sources (map cmd (rev cs)))"
      by (simp add: src set_chunk_shard_names_rev)
    with f q have "files w p = files w1 p" by (simp add: fw)
    with fr q show "files w p = fs p" by simp
  qed
  from mw 1 2 3 show ?thesis unfolding dd_def di_def by (intro exI [of _ w] conjI)
qed

section \<open>All workers, then the coordinator\<close>

lemma run_workers_result:
  assumes d: "a_data_filename_out ad = Some d" and i: "a_index_filename_out ad = Some i"
    and nd: "name_ok d" and ni: "name_ok i"
  shows "\<forall>r \<in> set rs. \<forall>c \<in> set (assigned r).
           unat (fst c) < 2 ^ 31 \<and> unat (snd c) < 2 ^ 31
           \<and> length (worker_merge_text d i r (chunk_split c EXIT_SUCCESS)) < FILENAME_MAX
           \<and> (\<forall>k \<in> set [unat (fst c) ..< unat (snd c)].
                 entry_processed (a_index ad) child_of (Some d) (Some i) k) \<Longrightarrow>
         distinct (concat (map (worker_names d i assigned) rs)) \<Longrightarrow>
         \<forall>r \<in> set rs. fs (rank_file d r) = None \<and> fs (rank_file i r) = None \<Longrightarrow>
         \<exists>fs1. run_workers (sh_ffindex_build other) (\<lambda>p. False) child_of assigned ad rs fs
                  = Ret fs1
           \<and> (\<forall>r \<in> set rs.
                 entry_names fs1 (rank_file i r)
                   = concat (map (chunk_names (a_index ad)) (rev (assigned r)))
                 \<and> shard_whole fs1 (rank_file d r) (rank_file i r))
           \<and> (\<forall>p. p \<notin> set (concat (map (worker_names d i assigned) rs)) \<longrightarrow> fs1 p = fs p)"
proof (induction rs arbitrary: fs)
  case Nil
  show ?case by simp
next
  case (Cons r rs)
  define rest where "rest = concat (map (worker_names d i assigned) rs)"
  from Cons.prems(1) have
    fitint: "\<forall>c \<in> set (assigned r). unat (fst c) < 2 ^ 31 \<and> unat (snd c) < 2 ^ 31"
    and fits: "\<forall>c \<in> set (assigned r).
                 length (worker_merge_text d i r (chunk_split c EXIT_SUCCESS)) < FILENAME_MAX"
    and runs: "\<forall>c \<in> set (assigned r). \<forall>k \<in> set [unat (fst c) ..< unat (snd c)].
                 entry_processed (a_index ad) child_of (Some d) (Some i) k"
    and p1: "\<forall>r \<in> set rs. \<forall>c \<in> set (assigned r).
           unat (fst c) < 2 ^ 31 \<and> unat (snd c) < 2 ^ 31
           \<and> length (worker_merge_text d i r (chunk_split c EXIT_SUCCESS)) < FILENAME_MAX
           \<and> (\<forall>k \<in> set [unat (fst c) ..< unat (snd c)].
                 entry_processed (a_index ad) child_of (Some d) (Some i) k)"
    by simp_all
  from Cons.prems(2) have "distinct (worker_names d i assigned r @ rest)"
    by (simp add: rest_def)
  then have dwn: "distinct (worker_names d i assigned r)"
    and p2: "distinct rest"
    and apart: "set (worker_names d i assigned r) \<inter> set rest = {}"
    by (simp_all only: distinct_append)
  from dwn have
    dist: "distinct (rank_file d r # rank_file i r # chunk_shard_names d i r (assigned r))"
    by (simp only: worker_names_def)
  from Cons.prems(3) have none: "fs (rank_file d r) = None" "fs (rank_file i r) = None"
    and nones: "\<forall>r \<in> set rs. fs (rank_file d r) = None \<and> fs (rank_file i r) = None"
    by simp_all
  from none have whole: "shard_whole fs (rank_file d r) (rank_file i r)"
    by (simp add: shard_whole_def)
  from none have e0: "entry_names fs (rank_file i r) = []"
    by (simp add: entry_names_def lines_of_def)
  from main_worker_result [OF d i nd ni fitint fits runs dist whole, where other = other] e0
  obtain w where
    mw: "main_worker (sh_ffindex_build other) r (\<lambda>p. False) child_of (assigned r) ad
           (world0\<lparr>files := fs\<rparr>) = Ret w"
    and n: "entry_names (files w) (rank_file i r)
              = concat (map (chunk_names (a_index ad)) (rev (assigned r)))"
    and wh: "shard_whole (files w) (rank_file d r) (rank_file i r)"
    and fr: "\<forall>p. p \<notin> set (worker_names d i assigned r) \<longrightarrow> files w p = fs p"
    by (auto simp: worker_names_def)
  have in_rest: "rank_file d r' \<in> set rest \<and> rank_file i r' \<in> set rest" if "r' \<in> set rs" for r'
    using that by (auto simp: rest_def worker_names_def)
  have p3: "\<forall>r \<in> set rs. files w (rank_file d r) = None \<and> files w (rank_file i r) = None"
  proof
    fix r'
    assume r': "r' \<in> set rs"
    from in_rest [OF r'] apart have
      "rank_file d r' \<notin> set (worker_names d i assigned r)"
      "rank_file i r' \<notin> set (worker_names d i assigned r)"
      by auto
    with fr nones r' show "files w (rank_file d r') = None \<and> files w (rank_file i r') = None"
      by simp
  qed
  from Cons.IH [OF p1 p2 [unfolded rest_def] p3] obtain fs1 where
    run: "run_workers (sh_ffindex_build other) (\<lambda>p. False) child_of assigned ad rs (files w)
            = Ret fs1"
    and all: "\<forall>r \<in> set rs.
                 entry_names fs1 (rank_file i r)
                   = concat (map (chunk_names (a_index ad)) (rev (assigned r)))
                 \<and> shard_whole fs1 (rank_file d r) (rank_file i r)"
    and fr1: "\<forall>p. p \<notin> set rest \<longrightarrow> fs1 p = files w p"
    by (auto simp: rest_def)
  from apart have "rank_file d r \<notin> set rest" "rank_file i r \<notin> set rest"
    by (auto simp: worker_names_def)
  with fr1 have same: "fs1 (rank_file d r) = files w (rank_file d r)"
    "fs1 (rank_file i r) = files w (rank_file i r)"
    by simp_all
  have c1: "entry_names fs1 (rank_file i r)
              = concat (map (chunk_names (a_index ad)) (rev (assigned r)))"
    using n entry_names_cong [of fs1 "rank_file i r" "files w"] same by simp
  have c2: "shard_whole fs1 (rank_file d r) (rank_file i r)"
    using wh shard_whole_cong [of fs1 "rank_file d r" "files w" "rank_file i r"] same by simp
  have 1: "run_workers (sh_ffindex_build other) (\<lambda>p. False) child_of assigned ad (r # rs) fs
             = Ret fs1"
    using mw run by simp
  have 2: "\<forall>r' \<in> set (r # rs).
                 entry_names fs1 (rank_file i r')
                   = concat (map (chunk_names (a_index ad)) (rev (assigned r')))
                 \<and> shard_whole fs1 (rank_file d r') (rank_file i r')"
    using c1 c2 all by simp
  have 3: "\<forall>p. p \<notin> set (concat (map (worker_names d i assigned) (r # rs))) \<longrightarrow> fs1 p = fs p"
  proof (intro allI impI)
    fix p
    assume "p \<notin> set (concat (map (worker_names d i assigned) (r # rs)))"
    then have "p \<notin> set (worker_names d i assigned r)" "p \<notin> set rest"
      by (simp_all add: rest_def)
    with fr fr1 show "fs1 p = fs p" by simp
  qed
  from 1 2 3 show ?case by (intro exI [of _ fs1] conjI)
qed

lemma sources_merge_args:
  "sources (merge_args d i r # cmds) = rank_file d r # rank_file i r # sources cmds"
  by (simp add: sources_def merge_args_def)

lemma rank_files_of_workers:
  "distinct (concat (map (worker_names d i assigned) rs)) \<Longrightarrow>
     distinct (sources (map (merge_args d i) rs))
     \<and> set (sources (map (merge_args d i) rs))
         \<subseteq> set (concat (map (worker_names d i assigned) rs))"
proof (induction rs)
  case Nil
  show ?case by (simp add: sources_def)
next
  case (Cons r rs)
  define rest where "rest = concat (map (worker_names d i assigned) rs)"
  define src where "src = sources (map (merge_args d i) rs)"
  from Cons.prems have "distinct (worker_names d i assigned r @ rest)"
    by (simp add: rest_def)
  then have dwn: "distinct (worker_names d i assigned r)"
    and p2: "distinct rest"
    and apart: "set (worker_names d i assigned r) \<inter> set rest = {}"
    by (simp_all only: distinct_append)
  from Cons.IH [OF p2 [unfolded rest_def]] have ds: "distinct src" and sub: "set src \<subseteq> set rest"
    by (simp_all add: src_def rest_def)
  from dwn have ne: "rank_file d r \<noteq> rank_file i r" by (simp add: worker_names_def)
  have mem: "rank_file d r \<in> set (worker_names d i assigned r)"
    "rank_file i r \<in> set (worker_names d i assigned r)"
    by (simp_all add: worker_names_def)
  with apart have "rank_file d r \<notin> set rest" "rank_file i r \<notin> set rest" by auto
  with sub have out: "rank_file d r \<notin> set src" "rank_file i r \<notin> set src" by auto
  have 1: "distinct (rank_file d r # rank_file i r # src)" using ne out ds by simp
  have 2: "set (rank_file d r # rank_file i r # src)
             \<subseteq> set (worker_names d i assigned r @ rest)"
    using mem sub by auto
  from 1 2 show ?case
    by (simp only: sources_merge_args src_def [symmetric] list.map concat.simps
        rest_def [symmetric])
qed

lemma run_all_order:
  assumes d: "a_data_filename_out ad = Some d" and i: "a_index_filename_out ad = Some i"
    and nd: "name_ok d" and ni: "name_ok i"
    and work: "\<forall>r \<in> set (split_ranks MPQ_size). \<forall>c \<in> set (assigned r).
           unat (fst c) < 2 ^ 31 \<and> unat (snd c) < 2 ^ 31
           \<and> length (worker_merge_text d i r (chunk_split c EXIT_SUCCESS)) < FILENAME_MAX
           \<and> (\<forall>k \<in> set [unat (fst c) ..< unat (snd c)].
                 entry_processed (a_index ad) child_of (Some d) (Some i) k)"
    and fits: "\<forall>r \<in> set (split_ranks MPQ_size). length (merge_text d i r) < FILENAME_MAX"
    and dist: "distinct (run_names d i assigned (split_ranks MPQ_size))"
    and none: "\<forall>r \<in> set (split_ranks MPQ_size).
                 fs (rank_file d r) = None \<and> fs (rank_file i r) = None"
  shows "\<exists>fs'. run_all (sh_ffindex_build other) (\<lambda>p. False) child_of assigned ad MPQ_size fs
                  = Ret fs'
           \<and> entry_names fs' i
               = entry_names fs i
                   @ concat (map (\<lambda>r. concat (map (chunk_names (a_index ad)) (rev (assigned r))))
                               (split_ranks MPQ_size))"
proof -
  define rs where "rs = split_ranks MPQ_size"
  define names where "names = concat (map (worker_names d i assigned) rs)"
  from dist have di: "d \<noteq> i" and dn: "d \<notin> set names" "i \<notin> set names"
    and dw: "distinct (concat (map (worker_names d i assigned) rs))"
    by (simp_all add: run_names_def rs_def names_def)
  from run_workers_result [OF d i nd ni work [folded rs_def] dw none [folded rs_def],
      where other = other]
  obtain fs1 where
    run: "run_workers (sh_ffindex_build other) (\<lambda>p. False) child_of assigned ad rs fs = Ret fs1"
    and all: "\<forall>r \<in> set rs.
                 entry_names fs1 (rank_file i r)
                   = concat (map (chunk_names (a_index ad)) (rev (assigned r)))
                 \<and> shard_whole fs1 (rank_file d r) (rank_file i r)"
    and fr: "\<forall>p. p \<notin> set names \<longrightarrow> fs1 p = fs p"
    by (auto simp: names_def)
  define fs' where
    "fs' = files (ffindex_merge_splits (sh_ffindex_build other) (Some d) (Some i) MPQ_size True
                    (world0\<lparr>files := fs1\<rparr>))"
  have ra: "run_all (sh_ffindex_build other) (\<lambda>p. False) child_of assigned ad MPQ_size fs
              = Ret fs'"
    using run d i by (simp add: run_all_def fs'_def rs_def)
  from fold_files [OF nd ni fits [folded rs_def], where other = other
      and w = "world0\<lparr>files := fs1\<rparr>"]
  have ff: "fs' = foldl append_and_remove fs1 (map (merge_args d i) rs)"
    by (simp add: fs'_def ffindex_merge_splits_def rs_def)
  from rank_files_of_workers [OF dw] have
    a3: "distinct (sources (map (merge_args d i) rs))"
    and sub: "set (sources (map (merge_args d i) rs)) \<subseteq> set names"
    by (simp_all add: names_def)
  have a1: "\<forall>c \<in> set (map (merge_args d i) rs). dst_data c = d \<and> dst_index c = i"
    by (simp add: merge_args_def)
  from sub dn have a4: "d \<notin> set (sources (map (merge_args d i) rs))"
    "i \<notin> set (sources (map (merge_args d i) rs))"
    by auto
  have a6: "\<forall>c \<in> set (map (merge_args d i) rs). shard_whole fs1 (src_data c) (src_index c)"
    using all by (simp add: merge_args_def)
  from append_fold [OF a1 di a3 a4 a6] have
    n: "entry_names (foldl append_and_remove fs1 (map (merge_args d i) rs)) i
          = entry_names fs1 i
              @ concat (map (\<lambda>c. entry_names fs1 (src_index c)) (map (merge_args d i) rs))"
    by simp
  from fr dn have "fs1 i = fs i" by simp
  then have n0: "entry_names fs1 i = entry_names fs i" by (rule entry_names_cong)
  have nm: "map (\<lambda>c. entry_names fs1 (src_index c)) (map (merge_args d i) rs)
              = map (\<lambda>r. concat (map (chunk_names (a_index ad)) (rev (assigned r)))) rs"
    using all by (simp add: merge_args_def)
  have "entry_names fs' i
          = entry_names fs i
              @ concat (map (\<lambda>r. concat (map (chunk_names (a_index ad)) (rev (assigned r)))) rs)"
    by (simp only: ff n n0 nm)
  with ra show ?thesis unfolding rs_def by (intro exI [of _ fs'] conjI)
qed

section \<open>Claims about the order of the merged entries\<close>

text \<open>
  C3 (as amended). A run with output capture (\<open>-d\<close> and \<open>-i\<close>, base names that can
  stand as file arguments) in which every shard file can be opened, every entry of
  every assigned chunk is processed, the bounds of every chunk are below \<open>2^31\<close>,
  every merge command line fits \<open>FILENAME_MAX\<close>, the files of the run have pairwise
  different names, and no worker shard file is there at the start; \<open>system\<close> runs the
  appending merge tool. The run comes to its end, and the final archive lists the
  entries it listed before, followed, for the ranks \<open>1\<close> to \<open>MPQ_size - 1\<close> in
  ascending order, by the chunks of that worker in the reverse of the order in
  which it was given them (the chunk completed last first), each chunk with its
  entries in index order.
\<close>

theorem merge_order_of_the_code:
  assumes "a_data_filename_out ad = Some d" and "a_index_filename_out ad = Some i"
    and "name_ok d" and "name_ok i"
    and "\<forall>r \<in> set (split_ranks MPQ_size). \<forall>c \<in> set (assigned r).
           unat (fst c) < 2 ^ 31 \<and> unat (snd c) < 2 ^ 31
           \<and> length (worker_merge_text d i r (chunk_split c EXIT_SUCCESS)) < FILENAME_MAX
           \<and> (\<forall>k \<in> set [unat (fst c) ..< unat (snd c)].
                 entry_processed (a_index ad) child_of (Some d) (Some i) k)"
    and "\<forall>r \<in> set (split_ranks MPQ_size). length (merge_text d i r) < FILENAME_MAX"
    and "distinct (run_names d i assigned (split_ranks MPQ_size))"
    and "\<forall>r \<in> set (split_ranks MPQ_size).
           fs (rank_file d r) = None \<and> fs (rank_file i r) = None"
  shows "\<exists>fs'. run_all (sh_ffindex_build other) (\<lambda>p. False) child_of assigned ad MPQ_size fs
                  = Ret fs'
           \<and> entry_names fs' i
               = entry_names fs i
                   @ concat (map (\<lambda>r. concat (map (chunk_names (a_index ad)) (rev (assigned r))))
                               (split_ranks MPQ_size))"
  using assms by (rule run_all_order)

lemmas run_eval =
  worker_eval worker_merge_text_def merge_text_def name_ok_def sh_plain_def sh_special_def
  chunk_file_d_def rank_file_def split_ranks_def chunk_split_def run_names_def
  worker_names_def chunk_shard_names_def chunk_names_def

lemma example_ranks: "split_ranks 3 = [1, 2]"
  by (simp add: split_ranks_def upt_rec [of 1] upt_rec [of 2] upt_rec [of "Suc 0"]
      upt_rec [of "Suc (Suc 0)"])

lemma example_run:
  "a_data_filename_out (ex_apply_data (Some ''o.d'') (Some ''o.i'')) = Some ''o.d''"
  "a_index_filename_out (ex_apply_data (Some ''o.d'') (Some ''o.i'')) = Some ''o.i''"
  "name_ok ''o.d''"
  "name_ok ''o.i''"
  "\<forall>r \<in> set (split_ranks 3). \<forall>c \<in> set ((\<lambda>r. if r = 1 then [(0, 1), (1, 2)] else []) r).
     unat (fst c) < 2 ^ 31 \<and> unat (snd c) < 2 ^ 31
     \<and> length (worker_merge_text ''o.d'' ''o.i'' r (chunk_split c EXIT_SUCCESS)) < FILENAME_MAX
     \<and> (\<forall>k \<in> set [unat (fst c) ..< unat (snd c)].
           entry_processed (a_index (ex_apply_data (Some ''o.d'') (Some ''o.i'')))
             (\<lambda>k. ex_child (Exited 0) ''o'') (Some ''o.d'') (Some ''o.i'') k)"
  "\<forall>r \<in> set (split_ranks 3). length (merge_text ''o.d'' ''o.i'' r) < FILENAME_MAX"
  "distinct (run_names ''o.d'' ''o.i'' (\<lambda>r. if r = 1 then [(0, 1), (1, 2)] else [])
               (split_ranks 3))"
  "\<forall>r \<in> set (split_ranks 3).
     Map.empty (rank_file ''o.d'' r) = (None :: shard_file option)
     \<and> Map.empty (rank_file ''o.i'' r) = (None :: shard_file option)"
proof -
  show "a_data_filename_out (ex_apply_data (Some ''o.d'') (Some ''o.i'')) = Some ''o.d''"
    "a_index_filename_out (ex_apply_data (Some ''o.d'') (Some ''o.i'')) = Some ''o.i''"
    by (simp_all add: ex_apply_data_def)
  show "name_ok ''o.d''" "name_ok ''o.i''" by (simp_all add: run_eval)
  show "\<forall>r \<in> set (split_ranks 3). \<forall>c \<in> set ((\<lambda>r. if r = 1 then [(0, 1), (1, 2)] else []) r).
     unat (fst c) < 2 ^ 31 \<and> unat (snd c) < 2 ^ 31
     \<and> length (worker_merge_text ''o.d'' ''o.i'' r (chunk_split c EXIT_SUCCESS)) < FILENAME_MAX
     \<and> (\<forall>k \<in> set [unat (fst c) ..< unat (snd c)].
           entry_processed (a_index (ex_apply_data (Some ''o.d'') (Some ''o.i'')))
             (\<lambda>k. ex_child (Exited 0) ''o'') (Some ''o.d'') (Some ''o.i'') k)"
    by (simp add: example_ranks) (simp add: run_eval upt_rec [of 0] upt_rec [of "Suc 0"])
  show "\<forall>r \<in> set (split_ranks 3). length (merge_text ''o.d'' ''o.i'' r) < FILENAME_MAX"
    by (simp add: example_ranks) (simp add: run_eval)
  show "distinct (run_names ''o.d'' ''o.i'' (\<lambda>r. if r = 1 then [(0, 1), (1, 2)] else [])
               (split_ranks 3))"
    by (simp add: example_ranks) (simp add: run_eval)
  show "\<forall>r \<in> set (split_ranks 3).
     Map.empty (rank_file ''o.d'' r) = (None :: shard_file option)
     \<and> Map.empty (rank_file ''o.i'' r) = (None :: shard_file option)"
    by simp
qed

lemma example_order:
  "concat (map (\<lambda>r. concat (map (chunk_names (a_index (ex_apply_data (Some ''o.d'') (Some ''o.i''))))
                              (rev ((\<lambda>r. if r = 1 then [(0, 1), (1, 2)] else []) r))))
             (split_ranks 3))
     = [''b'', ''a'']"
  by (simp add: example_ranks) (simp add: run_eval upt_rec [of 0] upt_rec [of "Suc 0"])

text \<open>
  The example archive on three processes, with \<open>-d o.d -i o.i\<close> and no file at the
  start. Rank 1 is given the chunks \<open>[0, 1)\<close> and \<open>[1, 2)\<close>, in this order, rank 2
  none. The final archive lists entry \<open>b\<close> before entry \<open>a\<close>.
\<close>

theorem merge_order_of_the_code_example:
  "\<exists>fs'. run_all (sh_ffindex_build not_found) (\<lambda>p. False) (\<lambda>k. ex_child (Exited 0) ''o'')
            (\<lambda>r. if r = 1 then [(0, 1), (1, 2)] else [])
            (ex_apply_data (Some ''o.d'') (Some ''o.i'')) 3 Map.empty = Ret fs'
     \<and> entry_names fs' ''o.i'' = [''b'', ''a'']"
  using merge_order_of_the_code [OF example_run, where other = not_found]
  by (simp only: example_order) (simp add: entry_names_def lines_of_def)

text \<open>
  The claim as written, each worker's chunks in start order: in the same run the
  worker was given its chunks in ascending order of start, and the final archive
  holds the entries in the order \<open>b\<close>, \<open>a\<close>, where the order of the chunk starts, and
  of the source archive, is \<open>a\<close>, \<open>b\<close>.
\<close>

theorem worker_merges_latest_chunk_first:
  "(case run_all (sh_ffindex_build not_found) (\<lambda>p. False) (\<lambda>k. ex_child (Exited 0) ''o'')
           (\<lambda>r. if r = 1 then [(0, 1), (1, 2)] else [])
           (ex_apply_data (Some ''o.d'') (Some ''o.i'')) 3 Map.empty of
      Ret fs' \<Rightarrow>
        entry_names fs' ''o.i'' = [''b'', ''a''] \<and> map e_name ex_index = [''a'', ''b'']
    | Blocked \<Rightarrow> False
    | Crash f \<Rightarrow> False)"
proof -
  from run_all_order [OF example_run, where other = not_found] obtain fs' where
    r: "run_all (sh_ffindex_build not_found) (\<lambda>p. False) (\<lambda>k. ex_child (Exited 0) ''o'')
          (\<lambda>r. if r = 1 then [(0, 1), (1, 2)] else [])
          (ex_apply_data (Some ''o.d'') (Some ''o.i'')) 3 Map.empty = Ret fs'"
    and n: "entry_names fs' ''o.i'' = [''b'', ''a'']"
    by (simp only: example_order) (auto simp: entry_names_def lines_of_def)
  have "map e_name ex_index = [''a'', ''b'']" by (simp add: ex_index_def)
  with r n show ?thesis by simp
qed

end
